theory Spec2Isabelle
  imports Complex_Main "HOL-Library.Log_Nat"
begin

section \<open>JavaScript numbers\<close>

text \<open>
  Every number of \<^verbatim>\<open>App.tsx\<close> is an IEEE 754 binary64 value. A finite value is kept as the
  rational it denotes; the two infinities and NaN are values of their own. The two zeros
  are not told apart (\<open>Fin 0\<close> stands for both): every operand of the conversion is
  non-negative, and a division by zero there has a zero of positive sign.
\<close>

datatype number = Fin rat | PosInf | NegInf | NaN

text \<open>\<open>ilog2 q\<close> is the binary exponent of a positive rational: \<open>2^e \<le> q < 2^(e+1)\<close>.\<close>

definition ilog2 :: "rat \<Rightarrow> int" where
  "ilog2 q = (case quotient_of q of (a, b) \<Rightarrow>
     (let d = bitlen a - bitlen b in if 2 powi d \<le> q then d else d - 1))"

definition round_half_even :: "rat \<Rightarrow> int" where
  "round_half_even q =
     (let f = \<lfloor>q\<rfloor>; d = q - of_int f
      in if d < 1 / 2 then f else if 1 / 2 < d then f + 1 else if even f then f else f + 1)"

text \<open>
  Rounding of an exact result to binary64, to nearest with ties to even: 53 significant
  bits, the exponent of a normal value between -1022 and 1023, subnormal values below
  (they share the exponent -1022), overflow to an infinity. \<open>ulp q\<close> is the distance of
  two neighbouring binary64 values around \<open>q\<close>.
\<close>

definition exponent :: "rat \<Rightarrow> int" where
  "exponent q = max (ilog2 \<bar>q\<bar>) (- 1022)"

definition ulp :: "rat \<Rightarrow> rat" where
  "ulp q = 2 powi (exponent q - 52)"

definition fl :: "rat \<Rightarrow> number" where
  "fl q =
     (if q = 0 then Fin 0
      else
        let r = of_int (round_half_even (q / ulp q)) * ulp q
        in if 2 powi 1024 \<le> \<bar>r\<bar> then (if 0 < q then PosInf else NegInf) else Fin r)"

text \<open>
  An integer of the program (an image dimension, a canvas size, a string length) as a
  number. These integers are below \<open>2^53\<close>, where every integer is a binary64 value.
\<close>

definition num :: "nat \<Rightarrow> number" where
  "num n = Fin (of_nat n)"

text \<open>The operators \<^verbatim>\<open>/\<close>, \<^verbatim>\<open>*\<close> and \<^verbatim>\<open>-\<close>.\<close>

fun js_div :: "number \<Rightarrow> number \<Rightarrow> number" where
  "js_div (Fin a) (Fin b) =
     (if b = 0 then (if a = 0 then NaN else if 0 < a then PosInf else NegInf)
      else fl (a / b))"
| "js_div (Fin a) PosInf = Fin 0"
| "js_div (Fin a) NegInf = Fin 0"
| "js_div PosInf (Fin b) = (if 0 \<le> b then PosInf else NegInf)"
| "js_div NegInf (Fin b) = (if 0 \<le> b then NegInf else PosInf)"
| "js_div _ _ = NaN"

fun js_mul :: "number \<Rightarrow> number \<Rightarrow> number" where
  "js_mul (Fin a) (Fin b) = fl (a * b)"
| "js_mul (Fin a) PosInf = (if a = 0 then NaN else if 0 < a then PosInf else NegInf)"
| "js_mul (Fin a) NegInf = (if a = 0 then NaN else if 0 < a then NegInf else PosInf)"
| "js_mul PosInf (Fin b) = (if b = 0 then NaN else if 0 < b then PosInf else NegInf)"
| "js_mul NegInf (Fin b) = (if b = 0 then NaN else if 0 < b then NegInf else PosInf)"
| "js_mul PosInf PosInf = PosInf"
| "js_mul PosInf NegInf = NegInf"
| "js_mul NegInf PosInf = NegInf"
| "js_mul NegInf NegInf = PosInf"
| "js_mul _ _ = NaN"

fun js_sub :: "number \<Rightarrow> number \<Rightarrow> number" where
  "js_sub (Fin a) (Fin b) = fl (a - b)"
| "js_sub (Fin a) PosInf = NegInf"
| "js_sub (Fin a) NegInf = PosInf"
| "js_sub PosInf (Fin b) = PosInf"
| "js_sub NegInf (Fin b) = NegInf"
| "js_sub PosInf NegInf = PosInf"
| "js_sub NegInf PosInf = NegInf"
| "js_sub _ _ = NaN"

text \<open>\<^verbatim>\<open>Math.min\<close> of two arguments: NaN if either is.\<close>

fun Math_min :: "number \<Rightarrow> number \<Rightarrow> number" where
  "Math_min NaN _ = NaN"
| "Math_min _ NaN = NaN"
| "Math_min NegInf _ = NegInf"
| "Math_min _ NegInf = NegInf"
| "Math_min PosInf b = b"
| "Math_min a PosInf = a"
| "Math_min (Fin a) (Fin b) = Fin (min a b)"

text \<open>\<^verbatim>\<open>Math.round\<close>: the nearest integer, a half rounded up.\<close>

fun Math_round :: "number \<Rightarrow> number" where
  "Math_round (Fin q) = Fin (of_int \<lfloor>q + 1 / 2\<rfloor>)"
| "Math_round a = a"

text \<open>The comparisons \<^verbatim>\<open><\<close> and \<^verbatim>\<open><=\<close>: false as soon as an operand is NaN.\<close>

fun js_lt :: "number \<Rightarrow> number \<Rightarrow> bool" where
  "js_lt (Fin a) (Fin b) = (a < b)"
| "js_lt (Fin a) PosInf = True"
| "js_lt NegInf (Fin b) = True"
| "js_lt NegInf PosInf = True"
| "js_lt _ _ = False"

fun js_le :: "number \<Rightarrow> number \<Rightarrow> bool" where
  "js_le (Fin a) (Fin b) = (a \<le> b)"
| "js_le NaN _ = False"
| "js_le _ NaN = False"
| "js_le NegInf _ = True"
| "js_le _ PosInf = True"
| "js_le _ _ = False"

section \<open>Strings\<close>

text \<open>\<^verbatim>\<open>s.split(c)\<close> for a one-character separator, and \<^verbatim>\<open>xs[i]\<close> (\<open>None\<close> is \<^verbatim>\<open>undefined\<close>).\<close>

fun js_split :: "char \<Rightarrow> string \<Rightarrow> string list" where
  "js_split c [] = [[]]"
| "js_split c (a # as) =
     (if a = c then [] # js_split c as
      else (case js_split c as of [] \<Rightarrow> [[a]] | p # ps \<Rightarrow> (a # p) # ps))"

fun at_index :: "'a list \<Rightarrow> nat \<Rightarrow> 'a option" where
  "at_index [] i = None"
| "at_index (a # as) 0 = Some a"
| "at_index (a # as) (Suc i) = at_index as i"

section \<open>The data of App.tsx\<close>

record ImageMetadata =
  filename :: string
  md_type :: string
  md_size :: nat
  md_width :: nat
  md_height :: nat

record OutputData =
  dataUri :: string
  outputSizeKB :: number
  outputWidth :: nat
  outputHeight :: nat

text \<open>A \<^verbatim>\<open>File\<close>: its name, its declared MIME type, its size and its bytes.\<close>

record File =
  file_name :: string
  file_type :: string
  file_size :: nat
  file_bytes :: "nat list"

text \<open>
  A loaded \<^verbatim>\<open>HTMLImageElement\<close>: the URL it was loaded from and its natural dimensions
  (\<^verbatim>\<open>unsigned long\<close> attributes, so they may be zero).
\<close>

record image =
  src :: string
  naturalWidth :: nat
  naturalHeight :: nat

text \<open>The calls made on the 2D context, and a canvas: its size and what was drawn on it.\<close>

datatype draw_op =
  ClearRect number number number number
  | DrawImage image number number number number
  | DrawImageAt image number number

record canvas =
  canvas_width :: nat
  canvas_height :: nat
  drawn :: "draw_op list"

text \<open>
  What is thrown inside \<^verbatim>\<open>processImage\<close>: an \<^verbatim>\<open>Error\<close> the code constructs, a
  \<^verbatim>\<open>DOMException\<close> of the browser (a rejected \<^verbatim>\<open>decode()\<close>, a tainted canvas) or the
  \<^verbatim>\<open>TypeError\<close> of reading \<^verbatim>\<open>length\<close> of \<^verbatim>\<open>undefined\<close>. Each is an instance of
  \<^verbatim>\<open>Error\<close>, so the handler shows its message.
\<close>

datatype js_error = Error string | DOMException string | TypeError string

fun message :: "js_error \<Rightarrow> string" where
  "message (Error m) = m"
| "message (DOMException m) = m"
| "message (TypeError m) = m"

text \<open>
  The browser, as far as \<^verbatim>\<open>processImage\<close> observes it:
  \<^item> \<open>readAsDataURL\<close>: the data URL of a file's type and bytes, \<open>None\<close> when the reader
    signals \<^verbatim>\<open>onerror\<close>;
  \<^item> \<open>loadImage\<close>: the image loaded from a URL, \<open>None\<close> when it signals \<^verbatim>\<open>onerror\<close>;
  \<^item> \<open>decode\<close>: \<open>Some m\<close> when \<^verbatim>\<open>img.decode()\<close> rejects with message \<open>m\<close>;
  \<^item> \<open>getContext\<close>: whether \<^verbatim>\<open>canvas.getContext('2d')\<close> returns a context;
  \<^item> \<open>serializePNG\<close>: the bytes of the PNG file of a canvas (\<open>None\<close> when the browser
    cannot produce one), or the exception \<^verbatim>\<open>toDataURL\<close> throws (a tainted canvas).
\<close>

record browser =
  readAsDataURL :: "string \<Rightarrow> nat list \<Rightarrow> string option"
  loadImage :: "string \<Rightarrow> image option"
  decode :: "image \<Rightarrow> string option"
  getContext :: bool
  serializePNG :: "canvas \<Rightarrow> js_error + nat list option"

text \<open>
  Base64 with padding (RFC 4648): three bytes give four characters, and a last group of
  one or two bytes is completed with \<^verbatim>\<open>=\<close>.
\<close>

definition base64_alphabet :: string where
  "base64_alphabet = ''ABCDEFGHIJKLMNOPQRSTUVWXYZabcdefghijklmnopqrstuvwxyz0123456789+/''"

definition base64_char :: "nat \<Rightarrow> char" where
  "base64_char n = base64_alphabet ! (n mod 64)"

fun base64 :: "nat list \<Rightarrow> string" where
  "base64 (a # b # c # bs) =
     (let n = (a mod 256) * 65536 + (b mod 256) * 256 + c mod 256
      in [base64_char (n div 262144), base64_char (n div 4096), base64_char (n div 64),
          base64_char n]) @ base64 bs"
| "base64 [a, b] =
     (let n = (a mod 256) * 65536 + (b mod 256) * 256
      in [base64_char (n div 262144), base64_char (n div 4096), base64_char (n div 64),
          CHR ''=''])"
| "base64 [a] =
     (let n = (a mod 256) * 65536
      in [base64_char (n div 262144), base64_char (n div 4096), CHR ''='', CHR ''=''])"
| "base64 [] = []"

text \<open>
  \<^verbatim>\<open>canvas.toDataURL('image/png')\<close>, as the HTML standard defines it: \<^verbatim>\<open>data:,\<close> for a canvas
  without pixels or without a file, otherwise the PNG file as a base64 data URL.
\<close>

definition toDataURL :: "browser \<Rightarrow> canvas \<Rightarrow> js_error + string" where
  "toDataURL B cv =
     (if canvas_width cv = 0 \<or> canvas_height cv = 0 then Inr ''data:,''
      else
        (case serializePNG B cv of
          Inl e \<Rightarrow> Inl e
        | Inr None \<Rightarrow> Inr ''data:,''
        | Inr (Some bytes) \<Rightarrow> Inr (''data:image/png;base64,'' @ base64 bytes)))"

text \<open>The state of the component \<^verbatim>\<open>App\<close> (its \<^verbatim>\<open>useState\<close> cells).\<close>

record app_state =
  selectedFile :: "File option"
  imageMetadata :: "ImageMetadata option"
  outputData :: "OutputData option"
  canvasSize :: nat
  fitToSquare :: bool
  isDragOver :: bool
  isProcessing :: bool
  error :: "string option"
  success :: "string option"

definition initial_state :: app_state where
  "initial_state =
     \<lparr>selectedFile = None, imageMetadata = None, outputData = None, canvasSize = 256,
      fitToSquare = True, isDragOver = False, isProcessing = False, error = None,
      success = None\<rparr>"

section \<open>The operations of App.tsx\<close>

definition ALLOWED_TYPES :: "string list" where
  "ALLOWED_TYPES = [''image/png'', ''image/jpeg'', ''image/webp'', ''image/svg+xml'']"

definition clearMessages :: "app_state \<Rightarrow> app_state" where
  "clearMessages s = s\<lparr>error := None, success := None\<rparr>"

definition showError :: "string \<Rightarrow> app_state \<Rightarrow> app_state" where
  "showError m s = s\<lparr>error := Some m, success := None\<rparr>"

definition showSuccess :: "string \<Rightarrow> app_state \<Rightarrow> app_state" where
  "showSuccess m s = s\<lparr>success := Some m, error := None\<rparr>"

definition isValidImageType :: "string \<Rightarrow> bool" where
  "isValidImageType t = (t \<in> set ALLOWED_TYPES)"

subsection \<open>The geometry of the square fit (lines 107 to 113)\<close>

record geometry =
  scale :: number
  scaledWidth :: number
  scaledHeight :: number
  geo_x :: number
  geo_y :: number

definition fit_geometry :: "nat \<Rightarrow> image \<Rightarrow> geometry" where
  "fit_geometry currentCanvasSize img =
     (let scale = Math_min (js_div (num currentCanvasSize) (num (naturalWidth img)))
                           (js_div (num currentCanvasSize) (num (naturalHeight img)));
          scaledWidth = js_mul (num (naturalWidth img)) scale;
          scaledHeight = js_mul (num (naturalHeight img)) scale;
          x = js_div (js_sub (num currentCanvasSize) scaledWidth) (Fin 2);
          y = js_div (js_sub (num currentCanvasSize) scaledHeight) (Fin 2)
      in \<lparr>scale = scale, scaledWidth = scaledWidth, scaledHeight = scaledHeight,
          geo_x = x, geo_y = y\<rparr>)"

subsection \<open>Drawing (lines 90 to 125)\<close>

text \<open>\<^verbatim>\<open>document.createElement('canvas')\<close>: 300 by 150, nothing drawn.\<close>

definition createCanvas :: canvas where
  "createCanvas = \<lparr>canvas_width = 300, canvas_height = 150, drawn = []\<rparr>"

text \<open>
  An assignment to \<^verbatim>\<open>canvas.width\<close> or \<^verbatim>\<open>canvas.height\<close>. Both are \<^verbatim>\<open>unsigned long\<close>
  attributes that reflect a content attribute limited to non-negative numbers: the integer
  assigned is taken modulo \<open>2^32\<close>, and a value above \<open>2^31 - 1\<close> is replaced by the default
  of the attribute (300 for the width, 150 for the height).
\<close>

definition set_dimension :: "nat \<Rightarrow> nat \<Rightarrow> nat" where
  "set_dimension initial v = (let n = v mod 2 ^ 32 in if n \<le> 2147483647 then n else initial)"

definition draw :: "nat \<Rightarrow> bool \<Rightarrow> image \<Rightarrow> canvas" where
  "draw currentCanvasSize currentFitToSquare img =
     (if currentFitToSquare then
        (let g = fit_geometry currentCanvasSize img
         in createCanvas
            \<lparr>canvas_width := set_dimension 300 currentCanvasSize,
             canvas_height := set_dimension 150 currentCanvasSize,
             drawn := [ClearRect (Fin 0) (Fin 0) (num currentCanvasSize) (num currentCanvasSize),
                       DrawImage img (geo_x g) (geo_y g) (scaledWidth g) (scaledHeight g)]\<rparr>)
      else
        createCanvas
          \<lparr>canvas_width := set_dimension 300 (naturalWidth img),
           canvas_height := set_dimension 150 (naturalHeight img),
           drawn := [DrawImageAt img (Fin 0) (Fin 0)]\<rparr>)"

subsection \<open>Size accounting (lines 131 to 133)\<close>

definition outputSizeBytes_of :: "string \<Rightarrow> number" where
  "outputSizeBytes_of base64Data =
     Math_round (js_div (js_mul (num (length base64Data)) (Fin 3)) (Fin 4))"

definition outputSizeKB_of :: "number \<Rightarrow> number" where
  "outputSizeKB_of outputSizeBytes =
     js_div (Math_round (js_mul (js_div outputSizeBytes (Fin 1024)) (Fin 10))) (Fin 10)"

subsection \<open>processImage (lines 52 to 147)\<close>

text \<open>The platform calls an attempt has made, in order.\<close>

datatype call =
  FileReader_readAsDataURL | Image_load | Image_decode | Create_canvas | Canvas_getContext
  | Canvas_toDataURL

text \<open>
  One run of the \<^verbatim>\<open>try\<close> block: the platform calls made, the metadata passed to
  \<^verbatim>\<open>setImageMetadata\<close> if that line was reached, the values of \<^verbatim>\<open>scale\<close>,
  \<^verbatim>\<open>scaledWidth\<close>, \<^verbatim>\<open>scaledHeight\<close>, \<^verbatim>\<open>x\<close> and \<^verbatim>\<open>y\<close> if lines 107 to 113 ran, the
  canvas on which \<^verbatim>\<open>toDataURL\<close> was called, and either the exception thrown or the
  descriptor passed to \<^verbatim>\<open>setOutputData\<close>.
\<close>

record attempt =
  calls :: "call list"
  metadata :: "ImageMetadata option"
  fit :: "geometry option"
  painted :: "canvas option"
  result :: "js_error + OutputData"

definition unsupported_message :: "string \<Rightarrow> string" where
  "unsupported_message t =
     ''Unsupported file type: '' @ t @ ''. Please use PNG, JPEG, WEBP, or SVG.''"

definition undefined_length_message :: string where
  "undefined_length_message = ''Cannot read properties of undefined (reading 'length')''"

text \<open>
  The function of lines 52 to 146 is created anew by every render of \<^verbatim>\<open>App\<close>, and
  \<^verbatim>\<open>canvasSize\<close> and \<^verbatim>\<open>fitToSquare\<close> are variables of its closure: the values the state
  had in that render. \<open>render\<close> is the state of the render that created the function;
  lines 98 and 99 read the two variables from it, not from the state in which the function
  runs.
\<close>

definition processImage_try :: "app_state \<Rightarrow> browser \<Rightarrow> File \<Rightarrow> attempt" where
  "processImage_try render B file =
     (if \<not> isValidImageType (file_type file) then
        \<lparr>calls = [], metadata = None, fit = None, painted = None,
         result = Inl (Error (unsupported_message (file_type file)))\<rparr>
      else
        (case readAsDataURL B (file_type file) (file_bytes file) of
          None \<Rightarrow>
            \<lparr>calls = [FileReader_readAsDataURL], metadata = None, fit = None, painted = None,
             result = Inl (Error ''Failed to read file'')\<rparr>
        | Some dataUrl \<Rightarrow>
            (case loadImage B dataUrl of
              None \<Rightarrow>
                \<lparr>calls = [FileReader_readAsDataURL, Image_load], metadata = None, fit = None,
                 painted = None, result = Inl (Error ''Failed to load image'')\<rparr>
            | Some img \<Rightarrow>
                (case decode B img of
                  Some m \<Rightarrow>
                    \<lparr>calls = [FileReader_readAsDataURL, Image_load, Image_decode],
                     metadata = None, fit = None, painted = None,
                     result = Inl (DOMException m)\<rparr>
                | None \<Rightarrow>
                    (let md = \<lparr>filename = file_name file, md_type = file_type file,
                               md_size = file_size file, md_width = naturalWidth img,
                               md_height = naturalHeight img\<rparr>
                     in if \<not> getContext B then
                          \<lparr>calls = [FileReader_readAsDataURL, Image_load, Image_decode,
                                    Create_canvas, Canvas_getContext],
                           metadata = Some md, fit = None, painted = None,
                           result = Inl (Error ''Canvas context not available'')\<rparr>
                        else
                          (let currentFitToSquare = fitToSquare render;
                               currentCanvasSize = canvasSize render;
                               cv = draw currentCanvasSize currentFitToSquare img
                           in \<lparr>calls = [FileReader_readAsDataURL, Image_load, Image_decode,
                                        Create_canvas, Canvas_getContext, Canvas_toDataURL],
                               metadata = Some md,
                               fit = (if currentFitToSquare
                                      then Some (fit_geometry currentCanvasSize img) else None),
                               painted = Some cv,
                               result =
                                 (case toDataURL B cv of
                                   Inl e \<Rightarrow> Inl e
                                 | Inr pngDataUri \<Rightarrow>
                                     (case at_index (js_split CHR '','' pngDataUri) 1 of
                                       None \<Rightarrow> Inl (TypeError undefined_length_message)
                                     | Some base64Data \<Rightarrow>
                                         Inr \<lparr>dataUri = pngDataUri,
                                              outputSizeKB =
                                                outputSizeKB_of (outputSizeBytes_of base64Data),
                                              outputWidth = canvas_width cv,
                                              outputHeight = canvas_height cv\<rparr>))\<rparr>))))))"

text \<open>
  The function of a render on the component's state: the messages are cleared and
  \<^verbatim>\<open>isProcessing\<close> is set; the \<^verbatim>\<open>try\<close> block runs; \<^verbatim>\<open>catch\<close> shows the message of what
  was thrown; \<^verbatim>\<open>finally\<close> resets \<^verbatim>\<open>isProcessing\<close>. The setters act on the state \<open>s\<close> in
  which the function runs.
\<close>

definition processImage_callback ::
  "app_state \<Rightarrow> browser \<Rightarrow> File \<Rightarrow> app_state \<Rightarrow> app_state" where
  "processImage_callback render B file s =
     (let s1 = (clearMessages s)\<lparr>isProcessing := True\<rparr>;
          a = processImage_try render B file;
          s2 = (case metadata a of None \<Rightarrow> s1 | Some md \<Rightarrow> s1\<lparr>imageMetadata := Some md\<rparr>);
          s3 = (case result a of
                  Inr out \<Rightarrow> s2\<lparr>outputData := Some out\<rparr>
                | Inl err \<Rightarrow> showError (message err) s2)
      in s3\<lparr>isProcessing := False\<rparr>)"

text \<open>
  \<^verbatim>\<open>processImage\<close> is what \<^verbatim>\<open>useCallback\<close> returns. The dependency list (line 147) is
  empty, so in every render it is the function created by the first render, whose state is
  the initial one: whenever \<^verbatim>\<open>processImage\<close> runs, lines 98 and 99 read
  \<^verbatim>\<open>fitToSquare = true\<close> and \<^verbatim>\<open>canvasSize = 256\<close>.
\<close>

definition processImage :: "browser \<Rightarrow> File \<Rightarrow> app_state \<Rightarrow> app_state" where
  "processImage B file s = processImage_callback initial_state B file s"

subsection \<open>The handlers and the effect (lines 149 to 243)\<close>

definition handleFileSelect :: "browser \<Rightarrow> File \<Rightarrow> app_state \<Rightarrow> app_state" where
  "handleFileSelect B file s = processImage B file (s\<lparr>selectedFile := Some file\<rparr>)"

text \<open>
  \<open>parsed\<close> is the result of \<^verbatim>\<open>parseInt\<close> on the text of the input: an integer, or \<open>None\<close>
  for NaN, for which both comparisons are false.
\<close>

definition handleCanvasSizeChange :: "int option \<Rightarrow> app_state \<Rightarrow> app_state" where
  "handleCanvasSizeChange parsed s =
     (case parsed of
        None \<Rightarrow> s
      | Some v \<Rightarrow> if 8 \<le> v \<and> v \<le> 2048 then s\<lparr>canvasSize := nat v\<rparr> else s)"

definition handleFitToSquareChange :: "bool \<Rightarrow> app_state \<Rightarrow> app_state" where
  "handleFitToSquareChange checked s = s\<lparr>fitToSquare := checked\<rparr>"

text \<open>
  The effect that follows a render in which \<^verbatim>\<open>canvasSize\<close>, \<^verbatim>\<open>fitToSquare\<close> or
  \<^verbatim>\<open>selectedFile\<close> has changed, when its timer of 100 ms fires: the selected file is
  processed again, unless a conversion was running in that render.
\<close>

definition reprocess :: "browser \<Rightarrow> app_state \<Rightarrow> app_state" where
  "reprocess B s =
     (case selectedFile s of
        None \<Rightarrow> s
      | Some file \<Rightarrow> if isProcessing s then s else processImage B file s)"

section \<open>Example inputs\<close>

text \<open>Two files with the same bytes (the PNG signature) and different declared types.\<close>

definition png_file :: File where
  "png_file =
     \<lparr>file_name = ''icon.png'', file_type = ''image/png'', file_size = 8,
      file_bytes = [137, 80, 78, 71, 13, 10, 26, 10]\<rparr>"

definition gif_file :: File where
  "gif_file =
     \<lparr>file_name = ''icon.gif'', file_type = ''image/gif'', file_size = 8,
      file_bytes = [137, 80, 78, 71, 13, 10, 26, 10]\<rparr>"

text \<open>
  A browser in which reading, loading and decoding succeed, every image has the natural
  size \<open>w\<close> by \<open>h\<close>, the 2D context is available or not, and the PNG file of every canvas
  is the same eight bytes (in base64: \<^verbatim>\<open>iVBORw0KGgo=\<close>).
\<close>

definition example_browser :: "nat \<Rightarrow> nat \<Rightarrow> bool \<Rightarrow> browser" where
  "example_browser w h ctx =
     \<lparr>readAsDataURL = (\<lambda>t bs. Some (''data:'' @ t @ '';base64,iVBORw0KGgo='')),
      loadImage = (\<lambda>url. Some \<lparr>src = url, naturalWidth = w, naturalHeight = h\<rparr>),
      decode = (\<lambda>img. None),
      getContext = ctx,
      serializePNG = (\<lambda>cv. Inr (Some [137, 80, 78, 71, 13, 10, 26, 10]))\<rparr>"

definition example_image :: "nat \<Rightarrow> nat \<Rightarrow> image" where
  "example_image w h =
     \<lparr>src = ''data:image/png;base64,iVBORw0KGgo='', naturalWidth = w, naturalHeight = h\<rparr>"

definition example_metadata :: "nat \<Rightarrow> nat \<Rightarrow> ImageMetadata" where
  "example_metadata w h =
     \<lparr>filename = ''icon.png'', md_type = ''image/png'', md_size = 8, md_width = w,
      md_height = h\<rparr>"

definition example_output :: "nat \<Rightarrow> nat \<Rightarrow> OutputData" where
  "example_output w h =
     \<lparr>dataUri = ''data:image/png;base64,iVBORw0KGgo='',
      outputSizeKB = outputSizeKB_of (outputSizeBytes_of ''iVBORw0KGgo=''),
      outputWidth = w, outputHeight = h\<rparr>"

text \<open>The same browser with other bytes as the PNG file of every canvas.\<close>

definition payload_browser :: "nat list \<Rightarrow> browser" where
  "payload_browser bs = (example_browser 100 50 True)\<lparr>serializePNG := (\<lambda>cv. Inr (Some bs))\<rparr>"

definition payload_output :: "nat list \<Rightarrow> OutputData" where
  "payload_output bs =
     \<lparr>dataUri = ''data:image/png;base64,'' @ base64 bs,
      outputSizeKB = outputSizeKB_of (outputSizeBytes_of (base64 bs)),
      outputWidth = 256, outputHeight = 256\<rparr>"

text \<open>A state in which an earlier conversion has left its output.\<close>

definition example_state :: app_state where
  "example_state = initial_state\<lparr>outputData := Some (example_output 64 64)\<rparr>"

text \<open>The state after the file \<open>png_file\<close> has been chosen and converted, for a \<open>w\<close> by \<open>h\<close> image.\<close>

definition selected_state :: "nat \<Rightarrow> nat \<Rightarrow> app_state" where
  "selected_state w h =
     initial_state
       \<lparr>selectedFile := Some png_file, imageMetadata := Some (example_metadata w h),
        outputData := Some (example_output 256 256)\<rparr>"

section \<open>Properties of the rounding\<close>

text \<open>
  The exponent brackets a positive rational between two powers of two; rounding to the
  nearest integer is within one half, exact on integers and monotone. From these: below
  the overflow threshold \<open>fl\<close> is finite and within half an ulp (relative error at most
  \<open>2^-53\<close> in the normal range), it is exact on every value that has at most 53 significant
  bits, it keeps the sign, and it is monotone. \<open>fl_eval\<close> computes \<open>fl\<close> at a given
  rational from its exponent and its rounded significand.
\<close>

lemma powi2_mono: "a \<le> b \<Longrightarrow> (2::rat) powi a \<le> 2 powi b"
  by (rule power_int_increasing) simp_all

lemma powi2_strict_mono: "a < b \<Longrightarrow> (2::rat) powi a < 2 powi b"
  by (rule power_int_strict_increasing) simp_all

lemma powi2_less_cancel: "(2::rat) powi a < 2 powi b \<Longrightarrow> a < b"
  using powi2_mono [of b a] by (cases "a < b") auto

lemma of_int_bitlen_bounds:
  assumes "0 < a"
  shows "(2::rat) powi (bitlen a - 1) \<le> of_int a" and "(of_int a :: rat) < 2 powi (bitlen a)"
proof -
  have k: "1 \<le> bitlen a" using assms by (simp add: bitlen_alt_def)
  have "2 ^ nat (bitlen a - 1) \<le> a" using bitlen_bounds [OF assms] by simp
  then have "(of_int (2 ^ nat (bitlen a - 1)) :: rat) \<le> of_int a" by (simp only: of_int_le_iff)
  then show "(2::rat) powi (bitlen a - 1) \<le> of_int a" using k by (simp add: power_int_def)
  have "a < 2 ^ nat (bitlen a)" using bitlen_bounds [OF assms] by simp
  then have "(of_int a :: rat) < of_int (2 ^ nat (bitlen a))" by (simp only: of_int_less_iff)
  then show "(of_int a :: rat) < 2 powi (bitlen a)" using k by (simp add: power_int_def)
qed

lemma ilog2_bounds:
  assumes "0 < q"
  shows "2 powi (ilog2 q) \<le> q \<and> q < 2 powi (ilog2 q + 1)"
proof -
  obtain a b where ab: "quotient_of q = (a, b)" by (cases "quotient_of q")
  have b: "0 < b" using ab by (rule quotient_of_denom_pos)
  have q: "q = of_int a / of_int b" using ab by (rule quotient_of_div)
  have a: "0 < a" using assms b q by (simp add: zero_less_divide_iff)
  define d where "d = bitlen a - bitlen b"
  have up: "q < 2 powi (d + 1)"
  proof -
    have "of_int a < (2::rat) powi (d + 1) * 2 powi (bitlen b - 1)"
      using of_int_bitlen_bounds(2) [OF a] by (simp add: d_def flip: power_int_add)
    also have "\<dots> \<le> 2 powi (d + 1) * of_int b"
      using of_int_bitlen_bounds(1) [OF b] by (simp add: mult_left_mono)
    finally show ?thesis using b by (simp add: q pos_divide_less_eq)
  qed
  show ?thesis
  proof (cases "2 powi d \<le> q")
    case True
    then have "ilog2 q = d" by (simp add: ilog2_def ab d_def Let_def)
    then show ?thesis using True up by simp
  next
    case False
    then have e: "ilog2 q = d - 1" by (simp add: ilog2_def ab d_def Let_def)
    have "(2::rat) powi (d - 1) * of_int b \<le> 2 powi (d - 1) * 2 powi (bitlen b)"
      using of_int_bitlen_bounds(2) [OF b] by (simp add: mult_left_mono)
    also have "\<dots> = 2 powi (bitlen a - 1)"
      by (simp add: d_def flip: power_int_add)
    also have "\<dots> \<le> of_int a" by (rule of_int_bitlen_bounds(1) [OF a])
    finally have "2 powi (d - 1) \<le> q" using b by (simp add: q pos_le_divide_eq)
    then show ?thesis using False e by simp
  qed
qed

lemma ilog2_eq:
  assumes "2 powi e \<le> q" and "q < 2 powi (e + 1)"
  shows "ilog2 q = e"
proof -
  have "0 < q" using assms(1) by (rule less_le_trans [rotated]) simp
  then have b: "2 powi (ilog2 q) \<le> q" "q < 2 powi (ilog2 q + 1)"
    using ilog2_bounds by simp_all
  have "2 powi e < (2::rat) powi (ilog2 q + 1)" using assms(1) b(2) by simp
  then have 1: "e < ilog2 q + 1" by (rule powi2_less_cancel)
  have "2 powi (ilog2 q) < (2::rat) powi (e + 1)" using assms(2) b(1) by simp
  then have 2: "ilog2 q < e + 1" by (rule powi2_less_cancel)
  show ?thesis using 1 2 by simp
qed

lemma round_half_even_of_int: "round_half_even (of_int n) = n"
  by (simp add: round_half_even_def)

lemma round_half_even_near:
  assumes "\<bar>q - of_int n\<bar> < 1 / 2"
  shows "round_half_even q = n"
proof -
  consider "of_int n \<le> q" | "q < of_int n" by linarith
  then show ?thesis
  proof cases
    case 1
    then have "\<lfloor>q\<rfloor> = n" using assms by (intro floor_unique) linarith+
    then show ?thesis using assms 1 by (simp add: round_half_even_def Let_def)
  next
    case 2
    then have f: "\<lfloor>q\<rfloor> = n - 1" using assms by (intro floor_unique) (simp, linarith)+
    then show ?thesis using assms 2 by (simp add: round_half_even_def Let_def)
  qed
qed

lemma round_half_even_error: "\<bar>of_int (round_half_even q) - q\<bar> \<le> 1 / 2"
proof -
  have "of_int \<lfloor>q\<rfloor> \<le> q" "q < of_int \<lfloor>q\<rfloor> + 1" by linarith+
  then show ?thesis by (auto simp: round_half_even_def Let_def)
qed

lemma round_half_even_ge: "of_int n \<le> q \<Longrightarrow> n \<le> round_half_even q"
proof -
  assume "of_int n \<le> q"
  then have "n \<le> \<lfloor>q\<rfloor>" by (simp add: le_floor_iff)
  then show ?thesis by (auto simp: round_half_even_def Let_def)
qed

lemma round_half_even_le: "q \<le> of_int n \<Longrightarrow> round_half_even q \<le> n"
proof -
  assume a: "q \<le> of_int n"
  show ?thesis
  proof (cases "q = of_int n")
    case True
    then show ?thesis by (simp add: round_half_even_of_int)
  next
    case False
    then have "q < of_int n" using a by simp
    then have "\<lfloor>q\<rfloor> < n" by (simp add: floor_less_iff)
    then show ?thesis by (auto simp: round_half_even_def Let_def)
  qed
qed

lemma round_half_even_mono:
  assumes "p \<le> q"
  shows "round_half_even p \<le> round_half_even q"
proof (cases "\<lfloor>p\<rfloor> < \<lfloor>q\<rfloor>")
  case True
  have "round_half_even p \<le> \<lfloor>p\<rfloor> + 1" by (auto simp: round_half_even_def Let_def)
  moreover have "\<lfloor>q\<rfloor> \<le> round_half_even q" by (auto simp: round_half_even_def Let_def)
  ultimately show ?thesis using True by linarith
next
  case False
  then have "\<lfloor>p\<rfloor> = \<lfloor>q\<rfloor>" using floor_mono [OF assms] by linarith
  then show ?thesis using assms by (auto simp: round_half_even_def Let_def)
qed

lemma powi2_add: "(2::rat) powi a * 2 powi b = 2 powi (a + b)"
  by (simp add: power_int_add)

lemma ulp_pos: "0 < ulp q"
  by (simp add: ulp_def)

lemma exponent_ge: "- 1022 \<le> exponent q"
  by (simp add: exponent_def)

lemma exponent_less:
  assumes "q \<noteq> 0" and "\<bar>q\<bar> < 2 powi k" and "- 1022 < k"
  shows "exponent q < k"
proof -
  have "2 powi (ilog2 \<bar>q\<bar>) \<le> \<bar>q\<bar>" using ilog2_bounds [of "\<bar>q\<bar>"] assms(1) by simp
  then have "(2::rat) powi (ilog2 \<bar>q\<bar>) < 2 powi k" using assms(2) by simp
  then have "ilog2 \<bar>q\<bar> < k" by (rule powi2_less_cancel)
  then show ?thesis using assms(3) by (simp add: exponent_def)
qed

lemma abs_less_ulp:
  assumes "q \<noteq> 0"
  shows "\<bar>q\<bar> < 2 powi 53 * ulp q"
proof -
  have "\<bar>q\<bar> < 2 powi (ilog2 \<bar>q\<bar> + 1)" using ilog2_bounds [of "\<bar>q\<bar>"] assms by simp
  also have "\<dots> \<le> 2 powi (exponent q + 1)"
    by (rule powi2_mono) (simp add: exponent_def)
  also have "\<dots> = 2 powi 53 * ulp q"
    by (simp add: ulp_def power_int_diff power_int_add)
  finally show ?thesis .
qed

lemma normal_ge_ulp:
  assumes "2 powi (- 1022) \<le> \<bar>q\<bar>"
  shows "2 powi 52 * ulp q \<le> \<bar>q\<bar>" and "exponent q = ilog2 \<bar>q\<bar>"
proof -
  have pos: "0 < \<bar>q\<bar>" using assms by (rule less_le_trans [rotated]) simp
  have "(2::rat) powi (- 1022) < 2 powi (ilog2 \<bar>q\<bar> + 1)"
    using ilog2_bounds [OF pos] assms by simp
  then have "- 1022 < ilog2 \<bar>q\<bar> + 1" by (rule powi2_less_cancel)
  then show e: "exponent q = ilog2 \<bar>q\<bar>" by (simp add: exponent_def)
  have "2 powi 52 * ulp q = 2 powi (ilog2 \<bar>q\<bar>)"
    by (simp add: ulp_def e power_int_diff power_int_add)
  then show "2 powi 52 * ulp q \<le> \<bar>q\<bar>" using ilog2_bounds [OF pos] by simp
qed

text \<open>Below the overflow threshold the rounded value is finite, within half an ulp.\<close>

lemma fl_finite:
  assumes "\<bar>q\<bar> < 2 powi 1023"
  shows "fl q = Fin (of_int (round_half_even (q / ulp q)) * ulp q)"
    and "\<bar>of_int (round_half_even (q / ulp q)) * ulp q - q\<bar> \<le> ulp q / 2"
proof -
  let ?n = "round_half_even (q / ulp q)"
  have "\<bar>of_int ?n - q / ulp q\<bar> \<le> 1 / 2" by (rule round_half_even_error)
  then have "\<bar>of_int ?n - q / ulp q\<bar> * ulp q \<le> 1 / 2 * ulp q"
    using ulp_pos [of q] by (simp only: mult_le_cancel_right_pos)
  moreover have "\<bar>of_int ?n - q / ulp q\<bar> * ulp q = \<bar>of_int ?n * ulp q - q\<bar>"
  proof -
    have "(of_int ?n - q / ulp q) * ulp q = of_int ?n * ulp q - q"
      using ulp_pos [of q] by (simp add: left_diff_distrib)
    then have "\<bar>of_int ?n * ulp q - q\<bar> = \<bar>(of_int ?n - q / ulp q) * ulp q\<bar>" by simp
    also have "\<dots> = \<bar>of_int ?n - q / ulp q\<bar> * \<bar>ulp q\<bar>" by (rule abs_mult)
    finally show ?thesis using ulp_pos [of q] by simp
  qed
  ultimately show err: "\<bar>of_int ?n * ulp q - q\<bar> \<le> ulp q / 2" by simp
  show "fl q = Fin (of_int ?n * ulp q)"
  proof (cases "q = 0")
    case True
    then show ?thesis by (simp add: fl_def round_half_even_def)
  next
    case False
    have "exponent q < 1023" using False assms by (rule exponent_less) simp
    then have "exponent q - 52 \<le> 970" by simp
    then have "ulp q \<le> 2 powi 970" unfolding ulp_def by (rule powi2_mono)
    then have "\<bar>of_int ?n * ulp q\<bar> < 2 powi 1023 + 2 powi 970 / 2"
      using err assms by linarith
    also have "\<dots> \<le> (2::rat) powi 1024" by simp
    finally show ?thesis using False by (simp add: fl_def Let_def)
  qed
qed

lemma fl_exact:
  assumes q: "q = of_int m * 2 powi k" and m: "\<bar>m\<bar> < 2 ^ 53" and k: "- 1074 \<le> k" "k \<le> 970"
  shows "fl q = Fin q"
proof (cases "q = 0")
  case True
  then show ?thesis by (simp add: fl_def)
next
  case False
  have "\<bar>of_int m :: rat\<bar> < of_int (2 ^ 53)"
    using m by (simp only: of_int_abs [symmetric] of_int_less_iff)
  then have m': "\<bar>of_int m :: rat\<bar> < 2 powi 53" by simp
  have "\<bar>q\<bar> = \<bar>of_int m\<bar> * 2 powi k" by (simp add: q abs_mult)
  also have "\<dots> < 2 powi 53 * 2 powi k" using m' by (simp add: mult_strict_right_mono)
  also have "\<dots> = 2 powi (53 + k)" by (simp only: powi2_add)
  finally have lt: "\<bar>q\<bar> < 2 powi (53 + k)" .
  also have "\<dots> \<le> 2 powi 1023" using k by (intro powi2_mono) simp
  finally have fin: "\<bar>q\<bar> < 2 powi 1023" .
  have "exponent q < 53 + k" using False lt by (rule exponent_less) (use k in simp)
  then have j: "0 \<le> k - (exponent q - 52)" by simp
  define j where "j = nat (k - (exponent q - 52))"
  have "(2::rat) powi k = 2 powi (int j) * 2 powi (exponent q - 52)"
    using j by (simp only: powi2_add j_def) simp
  then have e: "q = of_int (m * 2 ^ j) * ulp q" by (simp add: q ulp_def)
  then have "q / ulp q = of_int (m * 2 ^ j) * ulp q / ulp q"
    by (rule arg_cong [where f = "\<lambda>x. x / ulp q"])
  then have "q / ulp q = of_int (m * 2 ^ j)" using ulp_pos [of q] by simp
  then have "round_half_even (q / ulp q) = m * 2 ^ j" by (simp only: round_half_even_of_int)
  then have "fl q = Fin (of_int (m * 2 ^ j) * ulp q)" using fl_finite(1) [OF fin] by simp
  then show ?thesis using e by simp
qed

lemma fl_of_nat:
  assumes "n < 2 ^ 53"
  shows "fl (of_nat n) = Fin (of_nat n)"
proof (rule fl_exact [where m = "int n" and k = 0])
  show "\<bar>int n\<bar> < 2 ^ 53" using assms by (simp add: nat_less_numeral_power_cancel_iff)
qed simp_all

lemma fl_dyadic:
  assumes "0 \<le> m" and "m < 2 ^ 53" and "k \<le> 1074"
  shows "fl (of_int m / 2 ^ k) = Fin (of_int m / 2 ^ k)"
proof (rule fl_exact [where m = m and k = "- int k"])
  show "(of_int m / 2 ^ k :: rat) = of_int m * 2 powi (- int k)"
    by (simp add: power_int_minus divide_inverse)
qed (use assms in simp_all)

lemma fl_sign:
  assumes "\<bar>q\<bar> < 2 powi 1023" and "fl q = Fin r"
  shows "0 \<le> q \<Longrightarrow> 0 \<le> r" and "q \<le> 0 \<Longrightarrow> r \<le> 0"
proof -
  have r: "r = of_int (round_half_even (q / ulp q)) * ulp q"
    using fl_finite(1) [OF assms(1)] assms(2) by simp
  show "0 \<le> r" if "0 \<le> q"
  proof -
    have "of_int 0 \<le> q / ulp q" using that ulp_pos [of q] by simp
    then have "0 \<le> round_half_even (q / ulp q)" by (rule round_half_even_ge)
    then show ?thesis using ulp_pos [of q] by (simp add: r)
  qed
  show "r \<le> 0" if "q \<le> 0"
  proof -
    have "q / ulp q \<le> of_int 0" using that ulp_pos [of q] by (simp add: divide_le_0_iff)
    then have "round_half_even (q / ulp q) \<le> 0" by (rule round_half_even_le)
    then show ?thesis using ulp_pos [of q] by (simp add: r mult_le_0_iff)
  qed
qed

lemma exponent_mono:
  assumes "0 < a" and "a \<le> b"
  shows "exponent a \<le> exponent b"
proof -
  have b: "0 < b" using assms by simp
  have "2 powi (ilog2 a) \<le> a" using ilog2_bounds [OF assms(1)] by simp
  also have "a \<le> b" by fact
  also have "b < 2 powi (ilog2 b + 1)" using ilog2_bounds [OF b] by simp
  finally have "ilog2 a < ilog2 b + 1" by (rule powi2_less_cancel)
  then show ?thesis using assms(1) b by (simp add: exponent_def)
qed

lemma fl_mono:
  assumes "0 < a" and "a \<le> b" and "b < 2 powi 1023" and "fl a = Fin ra" and "fl b = Fin rb"
  shows "ra \<le> rb"
proof -
  have b: "0 < b" using assms by simp
  have fa: "\<bar>a\<bar> < 2 powi 1023" and fb: "\<bar>b\<bar> < 2 powi 1023" using assms by simp_all
  let ?na = "round_half_even (a / ulp a)" and ?nb = "round_half_even (b / ulp b)"
  have ra: "ra = of_int ?na * ulp a" using fl_finite(1) [OF fa] assms(4) by simp
  have rb: "rb = of_int ?nb * ulp b" using fl_finite(1) [OF fb] assms(5) by simp
  have le: "exponent a \<le> exponent b" using assms(1,2) by (rule exponent_mono)
  show ?thesis
  proof (cases "exponent a = exponent b")
    case True
    then have u: "ulp a = ulp b" by (simp add: ulp_def)
    have "a / ulp b \<le> b / ulp b" using assms(2) ulp_pos [of b] by (simp add: divide_right_mono)
    then have "round_half_even (a / ulp b) \<le> ?nb" by (rule round_half_even_mono)
    then have "(of_int (round_half_even (a / ulp b)) :: rat) \<le> of_int ?nb"
      by (simp only: of_int_le_iff)
    then show ?thesis using ulp_pos [of b] by (simp add: ra rb u)
  next
    case False
    then have lt: "exponent a + 1 \<le> exponent b" using le by simp
    have "a / ulp a \<le> of_int (2 ^ 53)"
      using abs_less_ulp [of a] assms(1) ulp_pos [of a] by (simp add: pos_divide_le_eq)
    then have "?na \<le> 2 ^ 53" by (rule round_half_even_le)
    then have "(of_int ?na :: rat) \<le> of_int (2 ^ 53)" by (simp only: of_int_le_iff)
    then have "ra \<le> 2 powi 53 * ulp a" using ulp_pos [of a] by (simp add: ra)
    also have "\<dots> = 2 powi (exponent a + 1)"
      by (simp add: ulp_def power_int_diff power_int_add)
    also have "\<dots> \<le> 2 powi (exponent b)" using lt by (rule powi2_mono)
    finally have 1: "ra \<le> 2 powi (exponent b)" .
    have "- 1022 < exponent b" using lt exponent_ge [of a] by linarith
    then have eb: "exponent b = ilog2 b" using b by (simp add: exponent_def max_def split: if_splits)
    then have nb: "2 powi (- 1022) \<le> \<bar>b\<bar>"
    proof -
      have "(2::rat) powi (- 1022) \<le> 2 powi (ilog2 b)"
        using \<open>- 1022 < exponent b\<close> eb by (intro powi2_mono) simp
      also have "\<dots> \<le> b" using ilog2_bounds [OF b] by simp
      finally show ?thesis using b by simp
    qed
    have "of_int (2 ^ 52) \<le> b / ulp b"
      using normal_ge_ulp(1) [OF nb] b ulp_pos [of b] by (simp add: pos_le_divide_eq)
    then have "2 ^ 52 \<le> ?nb" by (rule round_half_even_ge)
    then have "(of_int (2 ^ 52) :: rat) \<le> of_int ?nb" by (simp only: of_int_le_iff)
    then have "2 powi 52 * ulp b \<le> rb" using ulp_pos [of b] by (simp add: rb)
    moreover have "2 powi 52 * ulp b = 2 powi (exponent b)"
      by (simp add: ulp_def power_int_diff)
    ultimately show ?thesis using 1 by simp
  qed
qed

text \<open>In the normal range the relative error is at most \<open>2^-53\<close>.\<close>

lemma fl_relative_error:
  assumes "2 powi (- 1022) \<le> \<bar>q\<bar>" and "\<bar>q\<bar> < 2 powi 1023"
  shows "\<exists>r. fl q = Fin r \<and> \<bar>r - q\<bar> \<le> \<bar>q\<bar> / 2 ^ 53"
proof -
  have "ulp q / 2 \<le> \<bar>q\<bar> / 2 ^ 53"
    using normal_ge_ulp(1) [OF assms(1)] by simp
  then show ?thesis using fl_finite [OF assms(2)] by (intro exI conjI) (assumption, linarith)
qed

lemma fl_absolute_error:
  assumes "\<bar>q\<bar> < 2 powi 1023"
  shows "\<exists>r. fl q = Fin r \<and> \<bar>r - q\<bar> \<le> \<bar>q\<bar> / 2 ^ 53 + 1 / 2 ^ 100
    \<and> (0 \<le> q \<longrightarrow> 0 \<le> r) \<and> (q \<le> 0 \<longrightarrow> r \<le> 0)"
proof (cases "q = 0")
  case True
  then show ?thesis by (simp add: fl_def)
next
  case nz: False
  obtain r where r: "fl q = Fin r" and e: "\<bar>r - q\<bar> \<le> ulp q / 2"
    using fl_finite [OF assms] by blast
  have "ulp q / 2 \<le> \<bar>q\<bar> / 2 ^ 53 + 1 / 2 ^ 100"
  proof (cases "2 powi (- 1022) \<le> \<bar>q\<bar>")
    case True
    then have "ulp q / 2 \<le> \<bar>q\<bar> / 2 ^ 53" using normal_ge_ulp(1) [OF True] by simp
    then show ?thesis by (rule order_trans) simp
  next
    case False
    have "\<bar>q\<bar> < 2 powi (- 1022)" using False by (rule not_le_imp_less)
    also have "\<dots> \<le> 2 powi (- 1021)" by (rule powi2_mono) simp
    finally have "exponent q < - 1021" using nz by (intro exponent_less) simp_all
    then have "exponent q = - 1022" using exponent_ge [of q] by simp
    have "ulp q / 2 = 2 powi (exponent q - 53)" by (simp add: ulp_def power_int_diff)
    also have "\<dots> \<le> 2 powi (- 100)"
      by (rule powi2_mono) (use \<open>exponent q = - 1022\<close> in simp)
    also have "\<dots> = 1 / 2 ^ 100" by (simp add: power_int_minus_divide)
    finally have "ulp q / 2 \<le> 1 / 2 ^ 100" .
    moreover have "0 \<le> \<bar>q\<bar> / 2 ^ 53" by simp
    ultimately show ?thesis by linarith
  qed
  then have "\<bar>r - q\<bar> \<le> \<bar>q\<bar> / 2 ^ 53 + 1 / 2 ^ 100" using e by simp
  then show ?thesis using r fl_sign [OF assms r] by blast
qed

lemma fl_eval:
  assumes "2 powi e \<le> q" and "q < 2 powi (e + 1)" and "- 1022 \<le> e" and "e \<le> 1022"
    and "\<bar>q / 2 powi (e - 52) - of_int n\<bar> < 1 / 2"
  shows "fl q = Fin (of_int n * 2 powi (e - 52))"
proof -
  have pos: "0 < q" using assms(1) by (rule less_le_trans [rotated]) simp
  have "ilog2 q = e" using assms(1,2) by (rule ilog2_eq)
  then have u: "ulp q = 2 powi (e - 52)" using pos assms(3) by (simp add: ulp_def exponent_def)
  have "q < 2 powi 1023"
    using assms(2) powi2_mono [of "e + 1" 1023] assms(4) by simp
  then have "\<bar>q\<bar> < 2 powi 1023" using pos by simp
  then have "fl q = Fin (of_int (round_half_even (q / ulp q)) * ulp q)" by (rule fl_finite(1))
  moreover have "round_half_even (q / ulp q) = n"
    using assms(5) unfolding u by (rule round_half_even_near)
  ultimately show ?thesis by (simp add: u)
qed

lemma fl_not_NaN: "fl q \<noteq> NaN"
  by (simp add: fl_def Let_def)

lemma Math_min_fl:
  assumes "0 < a" and "0 < b" and "a < 2 powi 1023" and "b < 2 powi 1023"
  shows "Math_min (fl a) (fl b) = fl (min a b)"
proof -
  have fa: "\<bar>a\<bar> < 2 powi 1023" and fb: "\<bar>b\<bar> < 2 powi 1023" using assms by simp_all
  obtain ra rb where ra: "fl a = Fin ra" and rb: "fl b = Fin rb"
    using fl_finite(1) [OF fa] fl_finite(1) [OF fb] by blast
  show ?thesis
  proof (cases "a \<le> b")
    case True
    then have "ra \<le> rb" by (rule fl_mono [OF assms(1) _ assms(4) ra rb])
    then show ?thesis using True by (simp add: ra rb min_def)
  next
    case False
    then have "b \<le> a" by simp
    then have "rb \<le> ra" by (rule fl_mono [OF assms(2) _ assms(3) rb ra])
    then show ?thesis using False by (simp add: ra rb min_def)
  qed
qed

lemma Math_min_not_NaN: "a \<noteq> NaN \<Longrightarrow> b \<noteq> NaN \<Longrightarrow> Math_min a b \<noteq> NaN"
  by (cases a; cases b) simp_all


section \<open>Arithmetic on dimensions and canvas sizes\<close>

lemma js_div_by_zero: "0 < c \<Longrightarrow> js_div (num c) (num 0) = PosInf"
  by (simp add: num_def)

lemma js_div_pos_not_NaN: "0 < c \<Longrightarrow> js_div (num c) (num n) \<noteq> NaN"
  by (simp add: num_def fl_not_NaN)

lemma of_nat_ratio_bounds:
  assumes "0 < n" and "c \<le> 2048"
  shows "(of_nat c :: rat) / of_nat n < 2 powi 1023"
proof -
  have "(of_nat c :: rat) / of_nat n \<le> of_nat c"
    using assms(1) by (simp add: divide_le_eq mult_le_cancel_left1)
  also have "\<dots> \<le> of_nat 2048" using assms(2) by (simp only: of_nat_le_iff)
  also have "\<dots> < (2::rat) powi 1023" by simp
  finally show ?thesis .
qed

lemma of_nat_canvas_bounds:
  assumes "8 \<le> c" and "c \<le> 2048"
  shows "(8::rat) \<le> of_nat c" and "(of_nat c :: rat) \<le> 2048"
proof -
  have "(of_nat 8 :: rat) \<le> of_nat c" using assms(1) by (simp only: of_nat_le_iff)
  then show "(8::rat) \<le> of_nat c" by simp
  have "(of_nat c :: rat) \<le> of_nat 2048" using assms(2) by (simp only: of_nat_le_iff)
  then show "(of_nat c :: rat) \<le> 2048" by simp
qed


section \<open>The pipeline\<close>

lemma initial_config: "canvasSize initial_state = 256" "fitToSquare initial_state = True"
  by (simp_all add: initial_state_def)

lemma isValidImageType_iff:
  "isValidImageType t \<longleftrightarrow>
     t \<in> {''image/png'', ''image/jpeg'', ''image/webp'', ''image/svg+xml''}"
  by (auto simp: isValidImageType_def ALLOWED_TYPES_def)

lemma processImage_callback_outputData:
  "outputData (processImage_callback r B file s) =
     (case result (processImage_try r B file) of
        Inl e \<Rightarrow> outputData s | Inr out \<Rightarrow> Some out)"
  by (simp add: processImage_callback_def Let_def clearMessages_def showError_def
      split: option.split sum.split)

lemma processImage_callback_error:
  "error (processImage_callback r B file s) =
     (case result (processImage_try r B file) of
        Inl e \<Rightarrow> Some (message e) | Inr out \<Rightarrow> None)"
  by (simp add: processImage_callback_def Let_def clearMessages_def showError_def
      split: option.split sum.split)

lemma processImage_callback_imageMetadata:
  "imageMetadata (processImage_callback r B file s) =
     (case metadata (processImage_try r B file) of
        None \<Rightarrow> imageMetadata s | Some md \<Rightarrow> Some md)"
  by (simp add: processImage_callback_def Let_def clearMessages_def showError_def
      split: option.split sum.split)



lemma processImage_try_success:
  assumes "result (processImage_try r B file) = Inr out"
  shows "\<exists>dataUrl img uri base64Data.
      isValidImageType (file_type file)
    \<and> readAsDataURL B (file_type file) (file_bytes file) = Some dataUrl
    \<and> loadImage B dataUrl = Some img
    \<and> decode B img = None
    \<and> getContext B
    \<and> toDataURL B (draw (canvasSize r) (fitToSquare r) img) = Inr uri
    \<and> at_index (js_split CHR '','' uri) 1 = Some base64Data
    \<and> out = \<lparr>dataUri = uri,
              outputSizeKB = outputSizeKB_of (outputSizeBytes_of base64Data),
              outputWidth = canvas_width (draw (canvasSize r) (fitToSquare r) img),
              outputHeight = canvas_height (draw (canvasSize r) (fitToSquare r) img)\<rparr>"
  using assms
  by (auto simp: processImage_try_def Let_def split: if_splits option.splits sum.splits)

lemma processImage_try_decoded:
  assumes "isValidImageType (file_type file)"
    and "readAsDataURL B (file_type file) (file_bytes file) = Some dataUrl"
    and "loadImage B dataUrl = Some img"
    and "decode B img = None"
  shows "metadata (processImage_try r B file) =
      Some \<lparr>filename = file_name file, md_type = file_type file, md_size = file_size file,
            md_width = naturalWidth img, md_height = naturalHeight img\<rparr>"
    and "result (processImage_try r B file) =
      (if \<not> getContext B then Inl (Error ''Canvas context not available'')
       else (case toDataURL B (draw (canvasSize r) (fitToSquare r) img) of
          Inl e \<Rightarrow> Inl e
        | Inr uri \<Rightarrow>
            (case at_index (js_split CHR '','' uri) 1 of
               None \<Rightarrow> Inl (TypeError undefined_length_message)
             | Some base64Data \<Rightarrow>
                 Inr \<lparr>dataUri = uri,
                      outputSizeKB = outputSizeKB_of (outputSizeBytes_of base64Data),
                      outputWidth = canvas_width (draw (canvasSize r) (fitToSquare r) img),
                      outputHeight = canvas_height (draw (canvasSize r) (fitToSquare r) img)\<rparr>)))"
    and "Canvas_toDataURL \<in> set (calls (processImage_try r B file)) \<longleftrightarrow> getContext B"
    and "fit (processImage_try r B file) =
      (if getContext B \<and> fitToSquare r then Some (fit_geometry (canvasSize r) img) else None)"
    and "painted (processImage_try r B file) =
      (if getContext B then Some (draw (canvasSize r) (fitToSquare r) img) else None)"
    and "calls (processImage_try r B file) =
      [FileReader_readAsDataURL, Image_load, Image_decode, Create_canvas, Canvas_getContext]
      @ (if getContext B then [Canvas_toDataURL] else [])"
  using assms by (simp_all add: processImage_try_def Let_def)

lemma set_dimension_small: "v \<le> 2147483647 \<Longrightarrow> set_dimension d v = v"
  by (simp add: set_dimension_def Let_def)

lemma draw_size:
  "canvas_width (draw c f img) = set_dimension 300 (if f then c else naturalWidth img)"
  "canvas_height (draw c f img) = set_dimension 150 (if f then c else naturalHeight img)"
  by (simp_all add: draw_def createCanvas_def Let_def)

lemma draw_size_256:
  "canvas_width (draw 256 True img) = 256" "canvas_height (draw 256 True img) = 256"
  by (simp_all add: draw_size set_dimension_small)

text \<open>A natural size of \<open>2^31\<close> or more leaves the canvas at its default size.\<close>

lemma draw_size_limit:
  "set_dimension 300 2147483647 = 2147483647" "set_dimension 300 2147483648 = 300"
  "canvas_width (draw 256 False (example_image 2147483648 3)) = 300"
  "canvas_height (draw 256 False (example_image 3 4294967295)) = 150"
  by (simp_all add: draw_size set_dimension_def example_image_def)

lemma draw_256:
  "draw 256 True img =
     \<lparr>canvas_width = 256, canvas_height = 256,
      drawn = [ClearRect (Fin 0) (Fin 0) (Fin 256) (Fin 256),
               DrawImage img (geo_x (fit_geometry 256 img)) (geo_y (fit_geometry 256 img))
                 (scaledWidth (fit_geometry 256 img)) (scaledHeight (fit_geometry 256 img))]\<rparr>"
  by (simp add: draw_def createCanvas_def Let_def set_dimension_small num_def)

lemma js_split_no_separator: "c \<notin> set p \<Longrightarrow> js_split c p = [p]"
  by (induction p) auto

lemma js_split_data_uri:
  assumes "CHR '','' \<notin> set p"
  shows "at_index (js_split CHR '','' (''data:image/png;base64,'' @ p)) 1 = Some p"
  using js_split_no_separator [OF assms] by simp

lemma base64_char_in_alphabet: "base64_char n \<in> set base64_alphabet"
proof -
  have "n mod 64 < length base64_alphabet" by (simp add: base64_alphabet_def)
  then show ?thesis unfolding base64_char_def by (rule nth_mem)
qed

lemma base64_char_not_comma: "base64_char n \<noteq> CHR '',''"
proof
  assume "base64_char n = CHR '',''"
  then have "CHR '','' \<in> set base64_alphabet" using base64_char_in_alphabet [of n] by simp
  then show False by (simp add: base64_alphabet_def)
qed

lemma base64_no_comma: "CHR '','' \<notin> set (base64 bs)"
  by (induction bs rule: base64.induct) (simp_all add: Let_def base64_char_not_comma [symmetric])

lemma length_base64: "length (base64 bs) = 4 * ((length bs + 2) div 3)"
proof (induction bs rule: base64.induct)
  case (1 a b c bs)
  have "(length bs + 5) div 3 = (length bs + 2) div 3 + 1" by presburger
  then show ?case using 1 by (simp add: Let_def add.commute)
qed (simp_all add: Let_def)

lemma toDataURL_payload:
  assumes "toDataURL B cv = Inr uri"
  shows "\<exists>p. at_index (js_split CHR '','' uri) 1 = Some p \<and> 4 dvd length p"
proof -
  have "uri = ''data:,'' \<or> (\<exists>bytes. uri = ''data:image/png;base64,'' @ base64 bytes)"
    using assms by (auto simp: toDataURL_def split: if_splits sum.splits option.splits)
  then show ?thesis
  proof
    assume "uri = ''data:,''"
    then show ?thesis by simp
  next
    assume "\<exists>bytes. uri = ''data:image/png;base64,'' @ base64 bytes"
    then obtain bytes where u: "uri = ''data:image/png;base64,'' @ base64 bytes" by blast
    have "at_index (js_split CHR '','' uri) 1 = Some (base64 bytes)"
      unfolding u using base64_no_comma by (rule js_split_data_uri)
    then show ?thesis by (simp add: length_base64)
  qed
qed

lemma example_base64: "base64 [137, 80, 78, 71, 13, 10, 26, 10] = ''iVBORw0KGgo=''"
  by (simp add: base64_char_def base64_alphabet_def)

lemma example_toDataURL:
  assumes "0 < canvas_width cv" and "0 < canvas_height cv"
  shows "toDataURL (example_browser w h ctx) cv = Inr ''data:image/png;base64,iVBORw0KGgo=''"
  using assms by (simp add: toDataURL_def example_browser_def example_base64 del: base64.simps)

lemma example_read:
  "readAsDataURL (example_browser w h ctx) (file_type png_file) (file_bytes png_file) =
     Some ''data:image/png;base64,iVBORw0KGgo=''"
  "loadImage (example_browser w h ctx) ''data:image/png;base64,iVBORw0KGgo='' =
     Some (example_image w h)"
  "decode (example_browser w h ctx) img = None"
  "getContext (example_browser w h ctx) = ctx"
  "isValidImageType (file_type png_file)"
  by (simp_all add: example_browser_def png_file_def example_image_def isValidImageType_iff)

lemma example_try:
  "processImage_try initial_state (example_browser w h True) png_file =
     \<lparr>calls = [FileReader_readAsDataURL, Image_load, Image_decode, Create_canvas,
               Canvas_getContext, Canvas_toDataURL],
      metadata = Some (example_metadata w h),
      fit = Some (fit_geometry 256 (example_image w h)),
      painted = Some (draw 256 True (example_image w h)),
      result = Inr (example_output 256 256)\<rparr>"
proof -
  let ?B = "example_browser w h True"
  note d = processImage_try_decoded [where B = ?B and r = initial_state,
      OF example_read(5) example_read(1) example_read(2) example_read(3)]
  have t: "toDataURL ?B (draw 256 True (example_image w h)) =
      Inr ''data:image/png;base64,iVBORw0KGgo=''"
    by (rule example_toDataURL) (simp_all add: draw_size_256)
  have "result (processImage_try initial_state ?B png_file) = Inr (example_output 256 256)"
    unfolding d(2) initial_config t
    by (simp add: example_read(4) draw_size_256 example_output_def)
  moreover have "metadata (processImage_try initial_state ?B png_file) =
      Some (example_metadata w h)"
    unfolding d(1) by (simp add: example_metadata_def png_file_def example_image_def)
  ultimately show ?thesis
    using d(4,5,6) by (intro attempt.equality) (simp_all add: initial_config example_read(4))
qed

lemma example_try_no_context:
  "processImage_try r (example_browser w h False) png_file =
     \<lparr>calls = [FileReader_readAsDataURL, Image_load, Image_decode, Create_canvas,
               Canvas_getContext],
      metadata = Some (example_metadata w h), fit = None, painted = None,
      result = Inl (Error ''Canvas context not available'')\<rparr>"
  by (simp add: processImage_try_def example_browser_def png_file_def isValidImageType_iff
      example_metadata_def Let_def)

lemma example_selected:
  "handleFileSelect (example_browser w h True) png_file initial_state = selected_state w h"
  unfolding handleFileSelect_def processImage_def processImage_callback_def example_try
  by (simp add: Let_def clearMessages_def selected_state_def initial_state_def)

lemma reprocess_selected:
  assumes "selectedFile s = Some file" and "\<not> isProcessing s"
  shows "reprocess B s = processImage B file s"
  using assms by (simp add: reprocess_def)

lemma payload_try:
  "result (processImage_try initial_state (payload_browser bs) png_file) =
     Inr (payload_output bs)"
proof -
  let ?B = "payload_browser bs"
  have v: "isValidImageType (file_type png_file)"
    and r: "readAsDataURL ?B (file_type png_file) (file_bytes png_file) =
      Some ''data:image/png;base64,iVBORw0KGgo=''"
    and l: "loadImage ?B ''data:image/png;base64,iVBORw0KGgo='' = Some (example_image 100 50)"
    and d: "decode ?B (example_image 100 50) = None"
    and g: "getContext ?B"
    by (simp_all add: payload_browser_def example_read)
  have t: "toDataURL ?B (draw 256 True (example_image 100 50)) =
      Inr (''data:image/png;base64,'' @ base64 bs)"
    by (simp add: toDataURL_def payload_browser_def draw_size_256 del: append.simps)
  show ?thesis
    unfolding processImage_try_decoded(2) [OF v r l d] initial_config t
    using g js_split_data_uri [OF base64_no_comma, of bs]
    by (simp add: payload_output_def draw_size_256 del: append.simps js_split.simps)
qed

text \<open>A control is changed after a file has been chosen: the effect runs \<^verbatim>\<open>processImage\<close>.\<close>

lemma selected_state_simps:
  "selectedFile (selected_state w h) = Some png_file"
  "\<not> isProcessing (selected_state w h)"
  "canvasSize (selected_state w h) = 256"
  "fitToSquare (selected_state w h) = True"
  by (simp_all add: selected_state_def initial_state_def)

lemma reprocess_after_change:
  "reprocess B (handleCanvasSizeChange (Some 128) (selected_state w h)) =
     processImage B png_file (handleCanvasSizeChange (Some 128) (selected_state w h))"
  "reprocess B (handleCanvasSizeChange (Some 2048) (selected_state w h)) =
     processImage B png_file (handleCanvasSizeChange (Some 2048) (selected_state w h))"
  "reprocess B (handleFitToSquareChange False (selected_state w h)) =
     processImage B png_file (handleFitToSquareChange False (selected_state w h))"
  by (rule reprocess_selected;
      simp add: handleCanvasSizeChange_def handleFitToSquareChange_def selected_state_simps)+

lemma processImage_example_output:
  "outputData (processImage (example_browser w h True) png_file s) =
     Some (example_output 256 256)"
  by (simp add: processImage_def processImage_callback_outputData example_try)


section \<open>The geometry of the square fit (C1)\<close>

text \<open>The binary64 values written 2.56, 5.12 and 1.28.\<close>

lemma fl_2_56: "fl (64 / 25) = Fin (5764607523034235 / 2251799813685248)"
  using fl_eval [where q = "64 / 25" and e = 1 and n = 5764607523034235] by simp

lemma fl_5_12: "fl (128 / 25) = Fin (5764607523034235 / 1125899906842624)"
  using fl_eval [where q = "128 / 25" and e = 2 and n = 5764607523034235] by simp

lemma fl_1_28: "fl (32 / 25) = Fin (5764607523034235 / 4503599627370496)"
  using fl_eval [where q = "32 / 25" and e = 0 and n = 5764607523034235] by simp

lemma example_100_50:
  "fit_geometry 256 (example_image 100 50) =
     \<lparr>scale = Fin (5764607523034235 / 2251799813685248), scaledWidth = Fin 256,
      scaledHeight = Fin 128, geo_x = Fin 0, geo_y = Fin 64\<rparr>"
proof -
  let ?s = "5764607523034235 / 2251799813685248 :: rat"
  have a: "js_div (num 256) (num 100) = Fin ?s"
    using fl_2_56 by (simp add: num_def)
  have b: "js_div (num 256) (num 50) = Fin (5764607523034235 / 1125899906842624)"
    using fl_5_12 by (simp add: num_def)
  have s: "Math_min (Fin ?s) (Fin (5764607523034235 / 1125899906842624)) = Fin ?s"
    by simp
  have w: "js_mul (num 100) (Fin ?s) = Fin 256"
    using fl_eval [where q = "100 * ?s" and e = 8 and n = 4503599627370496]
    by (simp add: num_def)
  have h: "js_mul (num 50) (Fin ?s) = Fin 128"
    using fl_eval [where q = "50 * ?s" and e = 7 and n = 4503599627370496]
    by (simp add: num_def)
  have x: "js_div (js_sub (num 256) (Fin 256)) (Fin 2) = Fin 0"
    by (simp add: num_def fl_def)
  have "fl 128 = Fin 128" using fl_of_nat [of 128] by simp
  moreover have "fl 64 = Fin 64" using fl_of_nat [of 64] by simp
  ultimately have y: "js_div (js_sub (num 256) (Fin 128)) (Fin 2) = Fin 64"
    by (simp add: num_def)
  show ?thesis
    unfolding fit_geometry_def Let_def
    by (simp only: example_image_def image.simps a b s w h x y)
qed

text \<open>What the formulas give for the same image and a canvas size of 128.\<close>

lemma example_100_50_at_128:
  "fit_geometry 128 (example_image 100 50) =
     \<lparr>scale = Fin (5764607523034235 / 4503599627370496), scaledWidth = Fin 128,
      scaledHeight = Fin 64, geo_x = Fin 0, geo_y = Fin 32\<rparr>"
proof -
  let ?s = "5764607523034235 / 4503599627370496 :: rat"
  have a: "js_div (num 128) (num 100) = Fin ?s"
    using fl_1_28 by (simp add: num_def)
  have b: "js_div (num 128) (num 50) = Fin (5764607523034235 / 2251799813685248)"
    using fl_2_56 by (simp add: num_def)
  have s: "Math_min (Fin ?s) (Fin (5764607523034235 / 2251799813685248)) = Fin ?s"
    by simp
  have w: "js_mul (num 100) (Fin ?s) = Fin 128"
    using fl_eval [where q = "100 * ?s" and e = 7 and n = 4503599627370496]
    by (simp add: num_def)
  have h: "js_mul (num 50) (Fin ?s) = Fin 64"
    using fl_eval [where q = "50 * ?s" and e = 6 and n = 4503599627370496]
    by (simp add: num_def)
  have x: "js_div (js_sub (num 128) (Fin 128)) (Fin 2) = Fin 0"
    by (simp add: num_def fl_def)
  have "fl 64 = Fin 64" using fl_of_nat [of 64] by simp
  moreover have "fl 32 = Fin 32" using fl_of_nat [of 32] by simp
  ultimately have y: "js_div (js_sub (num 128) (Fin 64)) (Fin 2) = Fin 32"
    by (simp add: num_def)
  show ?thesis
    unfolding fit_geometry_def Let_def
    by (simp only: example_image_def image.simps a b s w h x y)
qed

text \<open>
  The function a render creates computes the geometry from the canvas size of that render
  by the formulas of lines 107 to 113; for a canvas size in the range of the control the
  scale is the smaller of the two exact ratios, rounded once to binary64.
\<close>

lemma scale_rounded_min:
  assumes "0 < naturalWidth img" and "0 < naturalHeight img" and "0 < c" and "c \<le> 2048"
  shows "scale (fit_geometry c img) =
    fl (min (of_nat c / of_nat (naturalWidth img)) (of_nat c / of_nat (naturalHeight img)))"
proof -
  have "Math_min (fl (of_nat c / of_nat (naturalWidth img)))
      (fl (of_nat c / of_nat (naturalHeight img))) =
    fl (min (of_nat c / of_nat (naturalWidth img)) (of_nat c / of_nat (naturalHeight img)))"
    using assms by (intro Math_min_fl of_nat_ratio_bounds) simp_all
  then show ?thesis using assms(1,2) by (simp add: fit_geometry_def Let_def num_def)
qed

text \<open>
  C1. The claim is about every configuration with the fit to a square on. The code does
  not follow it when the canvas size has been changed: a 100 by 50 image is chosen, the
  canvas size is set to 128, and the effect processes the file again. That run is made by
  the function of the first render, which reads the canvas size 256: it computes the scale
  2.56 and draws the image at x = 0, y = 64 with width 256 and height 128. The formulas
  of the claim, for the canvas size 128 of the state, give the scale 1.28 and the
  rectangle x = 0, y = 32, width 128, height 64.
\<close>

theorem stale_canvas_size_geometry:
  "handleFileSelect (example_browser 100 50 True) png_file initial_state = selected_state 100 50
   \<and> canvasSize (handleCanvasSizeChange (Some 128) (selected_state 100 50)) = 128
   \<and> fitToSquare (handleCanvasSizeChange (Some 128) (selected_state 100 50)) = True
   \<and> reprocess (example_browser 100 50 True)
         (handleCanvasSizeChange (Some 128) (selected_state 100 50)) =
       processImage_callback initial_state (example_browser 100 50 True) png_file
         (handleCanvasSizeChange (Some 128) (selected_state 100 50))
   \<and> fit (processImage_try initial_state (example_browser 100 50 True) png_file) =
       Some \<lparr>scale = Fin (5764607523034235 / 2251799813685248), scaledWidth = Fin 256,
             scaledHeight = Fin 128, geo_x = Fin 0, geo_y = Fin 64\<rparr>
   \<and> painted (processImage_try initial_state (example_browser 100 50 True) png_file) =
       Some \<lparr>canvas_width = 256, canvas_height = 256,
             drawn = [ClearRect (Fin 0) (Fin 0) (Fin 256) (Fin 256),
                      DrawImage (example_image 100 50) (Fin 0) (Fin 64) (Fin 256) (Fin 128)]\<rparr>
   \<and> Math_min (js_div (num 128) (num (naturalWidth (example_image 100 50))))
         (js_div (num 128) (num (naturalHeight (example_image 100 50)))) =
       Fin (5764607523034235 / 4503599627370496)
   \<and> fit_geometry 128 (example_image 100 50) =
       \<lparr>scale = Fin (5764607523034235 / 4503599627370496), scaledWidth = Fin 128,
        scaledHeight = Fin 64, geo_x = Fin 0, geo_y = Fin 32\<rparr>
   \<and> fit (processImage_try initial_state (example_browser 100 50 True) png_file) \<noteq>
       Some (fit_geometry (canvasSize (handleCanvasSizeChange (Some 128) (selected_state 100 50)))
         (example_image 100 50))"
proof -
  have "Math_min (js_div (num 128) (num (naturalWidth (example_image 100 50))))
        (js_div (num 128) (num (naturalHeight (example_image 100 50)))) =
      scale (fit_geometry 128 (example_image 100 50))"
    by (simp add: fit_geometry_def Let_def)
  then show ?thesis
    by (simp add: example_selected reprocess_after_change processImage_def example_try
        example_100_50 example_100_50_at_128 draw_256)
       (simp add: handleCanvasSizeChange_def selected_state_simps example_100_50_at_128)
qed

section \<open>Output dimensions (C2)\<close>

text \<open>
  The function a render creates gives the output the size of its canvas: the canvas size
  of that render when its fit to a square is on, the natural size of the image when it is
  off (a size above \<open>2^31 - 1\<close> leaves the canvas at 300 by 150).
\<close>

lemma callback_output_dimensions:
  assumes "readAsDataURL B (file_type file) (file_bytes file) = Some dataUrl"
    and "loadImage B dataUrl = Some img"
    and "result (processImage_try r B file) = Inr out"
  shows "outputWidth out = set_dimension 300 (if fitToSquare r then canvasSize r else naturalWidth img)"
    and "outputHeight out =
      set_dimension 150 (if fitToSquare r then canvasSize r else naturalHeight img)"
proof -
  obtain dataUrl' img' where
    "readAsDataURL B (file_type file) (file_bytes file) = Some dataUrl'"
    "loadImage B dataUrl' = Some img'"
    "outputWidth out = canvas_width (draw (canvasSize r) (fitToSquare r) img')"
    "outputHeight out = canvas_height (draw (canvasSize r) (fitToSquare r) img')"
    using processImage_try_success [OF assms(3)] by fastforce
  then have "outputWidth out = canvas_width (draw (canvasSize r) (fitToSquare r) img)"
    "outputHeight out = canvas_height (draw (canvasSize r) (fitToSquare r) img)"
    using assms(1,2) by simp_all
  then show "outputWidth out =
      set_dimension 300 (if fitToSquare r then canvasSize r else naturalWidth img)"
    and "outputHeight out =
      set_dimension 150 (if fitToSquare r then canvasSize r else naturalHeight img)"
    by (simp_all add: draw_size)
qed

text \<open>Every output of \<^verbatim>\<open>processImage\<close> is 256 by 256, whatever the state holds.\<close>

lemma processImage_output_size:
  assumes "outputData (processImage B file s) = Some out"
    and "error (processImage B file s) = None"
  shows "outputWidth out = 256 \<and> outputHeight out = 256"
proof -
  have r: "result (processImage_try initial_state B file) = Inr out"
    using assms
    by (simp add: processImage_def processImage_callback_outputData
        processImage_callback_error split: sum.splits)
  show ?thesis
    using processImage_try_success [OF r] by (auto simp: initial_config draw_size_256)
qed

text \<open>
  C2. The code does not follow the claim when a control has been changed. A 100 by 50
  image is chosen and "Fit to square canvas" is unchecked: the effect processes the file
  again, by the function of the first render, and the output is 256 by 256, not
  100 by 50. In the same way, with the fit on and the canvas size set to 128, the output
  is 256 by 256, not 128 by 128.
\<close>

theorem stale_controls_output_dimensions:
  "handleFileSelect (example_browser 100 50 True) png_file initial_state = selected_state 100 50
   \<and> loadImage (example_browser 100 50 True) ''data:image/png;base64,iVBORw0KGgo='' =
       Some (example_image 100 50)
   \<and> naturalWidth (example_image 100 50) = 100 \<and> naturalHeight (example_image 100 50) = 50
   \<and> fitToSquare (handleFitToSquareChange False (selected_state 100 50)) = False
   \<and> error (reprocess (example_browser 100 50 True)
        (handleFitToSquareChange False (selected_state 100 50))) = None
   \<and> outputData (reprocess (example_browser 100 50 True)
        (handleFitToSquareChange False (selected_state 100 50))) = Some (example_output 256 256)
   \<and> fitToSquare (handleCanvasSizeChange (Some 128) (selected_state 100 50)) = True
   \<and> canvasSize (handleCanvasSizeChange (Some 128) (selected_state 100 50)) = 128
   \<and> outputData (reprocess (example_browser 100 50 True)
        (handleCanvasSizeChange (Some 128) (selected_state 100 50))) = Some (example_output 256 256)
   \<and> outputWidth (example_output 256 256) = 256 \<and> outputHeight (example_output 256 256) = 256
   \<and> outputWidth (example_output 256 256) \<noteq> naturalWidth (example_image 100 50)
   \<and> outputHeight (example_output 256 256) \<noteq> naturalHeight (example_image 100 50)
   \<and> outputWidth (example_output 256 256) \<noteq>
       canvasSize (handleCanvasSizeChange (Some 128) (selected_state 100 50))"
  by (simp add: example_selected reprocess_after_change processImage_example_output
      example_read)
     (simp add: handleCanvasSizeChange_def handleFitToSquareChange_def selected_state_simps
        example_image_def example_output_def processImage_def processImage_callback_error
        example_try)


section \<open>Zero dimensions (C3)\<close>

lemma scale_not_NaN: "0 < c \<Longrightarrow> scale (fit_geometry c img) \<noteq> NaN"
  by (simp add: fit_geometry_def Let_def Math_min_not_NaN js_div_pos_not_NaN)

lemma ratio_256_finite: "0 < n \<Longrightarrow> \<exists>r. js_div (num 256) (num n) = Fin r \<and> 0 \<le> r"
proof -
  assume n: "0 < n"
  let ?q = "256 / of_nat n :: rat"
  have "?q \<le> 256" using n by (simp add: divide_le_eq mult_le_cancel_left1)
  also have "\<dots> < (2::rat) powi 1023" by simp
  finally have "\<bar>?q\<bar> < 2 powi 1023" by simp
  then obtain r where r: "fl ?q = Fin r" and "0 \<le> ?q \<Longrightarrow> 0 \<le> r"
    using fl_finite(1) fl_sign(1) by blast
  then have "0 \<le> r" by simp
  then show ?thesis using n r by (simp add: num_def)
qed

lemma fit_geometry_zero_width:
  assumes "naturalWidth img = 0" and "0 < naturalHeight img"
  shows "fit_geometry 256 img =
    \<lparr>scale = js_div (num 256) (num (naturalHeight img)), scaledWidth = Fin 0,
     scaledHeight = js_mul (num (naturalHeight img)) (js_div (num 256) (num (naturalHeight img))),
     geo_x = Fin 128,
     geo_y = js_div (js_sub (num 256)
       (js_mul (num (naturalHeight img)) (js_div (num 256) (num (naturalHeight img))))) (Fin 2)\<rparr>"
proof -
  obtain r where r: "js_div (num 256) (num (naturalHeight img)) = Fin r"
    using ratio_256_finite [OF assms(2)] by blast
  have z: "js_div (num 256) (num (naturalWidth img)) = PosInf"
    by (simp add: assms(1) num_def)
  have "fl 256 = Fin 256" using fl_of_nat [of 256] by simp
  moreover have "fl 128 = Fin 128" using fl_of_nat [of 128] by simp
  ultimately have x: "js_div (js_sub (num 256) (Fin 0)) (Fin 2) = Fin 128"
    by (simp add: num_def)
  have w: "js_mul (num (naturalWidth img)) (Fin r) = Fin 0"
    by (simp add: assms(1) num_def fl_def)
  show ?thesis
    unfolding fit_geometry_def Let_def z r by (simp add: w x)
qed

lemma fit_geometry_zero_height:
  assumes "naturalHeight img = 0" and "0 < naturalWidth img"
  shows "fit_geometry 256 img =
    \<lparr>scale = js_div (num 256) (num (naturalWidth img)),
     scaledWidth = js_mul (num (naturalWidth img)) (js_div (num 256) (num (naturalWidth img))),
     scaledHeight = Fin 0,
     geo_x = js_div (js_sub (num 256)
       (js_mul (num (naturalWidth img)) (js_div (num 256) (num (naturalWidth img))))) (Fin 2),
     geo_y = Fin 128\<rparr>"
proof -
  obtain r where r: "js_div (num 256) (num (naturalWidth img)) = Fin r"
    using ratio_256_finite [OF assms(2)] by blast
  have z: "js_div (num 256) (num (naturalHeight img)) = PosInf"
    by (simp add: assms(1) num_def)
  have "fl 256 = Fin 256" using fl_of_nat [of 256] by simp
  moreover have "fl 128 = Fin 128" using fl_of_nat [of 128] by simp
  ultimately have y: "js_div (js_sub (num 256) (Fin 0)) (Fin 2) = Fin 128"
    by (simp add: num_def)
  have h: "js_mul (num (naturalHeight img)) (Fin r) = Fin 0"
    by (simp add: assms(1) num_def fl_def)
  show ?thesis
    unfolding fit_geometry_def Let_def z r by (simp add: h y)
qed

lemma fit_geometry_both_zero:
  assumes "naturalWidth img = 0" and "naturalHeight img = 0"
  shows "fit_geometry 256 img =
    \<lparr>scale = PosInf, scaledWidth = NaN, scaledHeight = NaN, geo_x = NaN, geo_y = NaN\<rparr>"
  using assms by (simp add: fit_geometry_def Let_def num_def)

lemma example_0_50:
  "fit_geometry 256 (example_image 0 50) =
     \<lparr>scale = Fin (5764607523034235 / 1125899906842624), scaledWidth = Fin 0,
      scaledHeight = Fin 256, geo_x = Fin 128, geo_y = Fin 0\<rparr>"
proof -
  let ?s = "5764607523034235 / 1125899906842624 :: rat"
  have b: "js_div (num 256) (num 50) = Fin ?s"
    using fl_5_12 by (simp add: num_def)
  have h: "js_mul (num 50) (Fin ?s) = Fin 256"
    using fl_eval [where q = "50 * ?s" and e = 8 and n = 4503599627370496]
    by (simp add: num_def)
  have y: "js_div (js_sub (num 256) (Fin 256)) (Fin 2) = Fin 0"
    by (simp add: num_def fl_def)
  have "fit_geometry 256 (example_image 0 50) =
      \<lparr>scale = js_div (num 256) (num 50), scaledWidth = Fin 0,
       scaledHeight = js_mul (num 50) (js_div (num 256) (num 50)), geo_x = Fin 128,
       geo_y = js_div (js_sub (num 256) (js_mul (num 50) (js_div (num 256) (num 50))))
         (Fin 2)\<rparr>"
    using fit_geometry_zero_width [of "example_image 0 50"] by (simp add: example_image_def)
  then show ?thesis by (simp only: b h y)
qed


text \<open>
  C3, as stated, fails: an image of natural width 0 is not rejected. 256 is divided by 0,
  which gives Infinity, and the conversion succeeds.
\<close>

theorem zero_dimension_counterexample:
  "naturalWidth (example_image 0 50) = 0
   \<and> loadImage (example_browser 0 50 True) ''data:image/png;base64,iVBORw0KGgo='' =
       Some (example_image 0 50)
   \<and> js_div (num 256) (num (naturalWidth (example_image 0 50))) = PosInf
   \<and> fit (processImage_try initial_state (example_browser 0 50 True) png_file) =
       Some \<lparr>scale = Fin (5764607523034235 / 1125899906842624), scaledWidth = Fin 0,
             scaledHeight = Fin 256, geo_x = Fin 128, geo_y = Fin 0\<rparr>
   \<and> error (processImage (example_browser 0 50 True) png_file initial_state) = None
   \<and> outputData (processImage (example_browser 0 50 True) png_file initial_state) =
       Some (example_output 256 256)"
  by (simp add: example_read processImage_def processImage_callback_error
      processImage_callback_outputData example_try example_0_50)
     (simp add: example_image_def num_def)

text \<open>
  C3, amended. The code has no test of the dimensions. For an image whose natural width or
  height is zero the conversion succeeds as soon as \<^verbatim>\<open>toDataURL\<close> returns: the output is 256
  by 256 and no error is shown. In the default configuration (canvas size 256, fit to a
  square on) the division by the zero dimension is done and gives Infinity; the scale is
  never NaN. When one dimension is zero the scale is the other ratio, 256 divided by the
  other dimension, a finite number: the zero side is scaled to 0 and centred at 128. When
  both are zero the scale is Infinity, and the scaled sizes and the offsets are NaN.
\<close>

theorem zero_dimension_not_rejected:
  assumes "isValidImageType (file_type file)"
    and "readAsDataURL B (file_type file) (file_bytes file) = Some dataUrl"
    and "loadImage B dataUrl = Some img"
    and "decode B img = None"
    and "getContext B"
    and "toDataURL B (draw 256 True img) = Inr uri"
    and "naturalWidth img = 0 \<or> naturalHeight img = 0"
  shows "error (processImage B file s) = None
    \<and> (\<exists>base64Data. at_index (js_split CHR '','' uri) 1 = Some base64Data
        \<and> outputData (processImage B file s) =
            Some \<lparr>dataUri = uri, outputSizeKB = outputSizeKB_of (outputSizeBytes_of base64Data),
                  outputWidth = 256, outputHeight = 256\<rparr>)
    \<and> fit (processImage_try initial_state B file) = Some (fit_geometry 256 img)
    \<and> (naturalWidth img = 0 \<longrightarrow> js_div (num 256) (num (naturalWidth img)) = PosInf)
    \<and> (naturalHeight img = 0 \<longrightarrow> js_div (num 256) (num (naturalHeight img)) = PosInf)
    \<and> scale (fit_geometry 256 img) \<noteq> NaN
    \<and> (naturalWidth img = 0 \<and> 0 < naturalHeight img \<longrightarrow>
         (\<exists>r. 0 \<le> r \<and> js_div (num 256) (num (naturalHeight img)) = Fin r
            \<and> fit_geometry 256 img =
                \<lparr>scale = Fin r, scaledWidth = Fin 0,
                 scaledHeight = js_mul (num (naturalHeight img)) (Fin r), geo_x = Fin 128,
                 geo_y = js_div (js_sub (num 256) (js_mul (num (naturalHeight img)) (Fin r)))
                   (Fin 2)\<rparr>))
    \<and> (naturalHeight img = 0 \<and> 0 < naturalWidth img \<longrightarrow>
         (\<exists>r. 0 \<le> r \<and> js_div (num 256) (num (naturalWidth img)) = Fin r
            \<and> fit_geometry 256 img =
                \<lparr>scale = Fin r, scaledWidth = js_mul (num (naturalWidth img)) (Fin r),
                 scaledHeight = Fin 0,
                 geo_x = js_div (js_sub (num 256) (js_mul (num (naturalWidth img)) (Fin r)))
                   (Fin 2),
                 geo_y = Fin 128\<rparr>))
    \<and> (naturalWidth img = 0 \<and> naturalHeight img = 0 \<longrightarrow>
         fit_geometry 256 img =
           \<lparr>scale = PosInf, scaledWidth = NaN, scaledHeight = NaN, geo_x = NaN, geo_y = NaN\<rparr>)"
proof -
  note d = processImage_try_decoded [where r = initial_state, OF assms(1-4)]
  obtain p where p: "at_index (js_split CHR '','' uri) 1 = Some p"
    using toDataURL_payload [OF assms(6)] by blast
  have res: "result (processImage_try initial_state B file) =
      Inr \<lparr>dataUri = uri, outputSizeKB = outputSizeKB_of (outputSizeBytes_of p),
           outputWidth = 256, outputHeight = 256\<rparr>"
    unfolding d(2) initial_config assms(6) using assms(5) p by (simp add: draw_size_256)
  have 1: "error (processImage B file s) = None"
    by (simp add: processImage_def processImage_callback_error res)
  have 2: "\<exists>base64Data. at_index (js_split CHR '','' uri) 1 = Some base64Data
      \<and> outputData (processImage B file s) =
          Some \<lparr>dataUri = uri, outputSizeKB = outputSizeKB_of (outputSizeBytes_of base64Data),
                outputWidth = 256, outputHeight = 256\<rparr>"
    using p by (simp add: processImage_def processImage_callback_outputData res)
  have 3: "fit (processImage_try initial_state B file) = Some (fit_geometry 256 img)"
    unfolding d(4) initial_config using assms(5) by simp
  have 4: "\<exists>r. 0 \<le> r \<and> js_div (num 256) (num (naturalHeight img)) = Fin r
      \<and> fit_geometry 256 img =
          \<lparr>scale = Fin r, scaledWidth = Fin 0,
           scaledHeight = js_mul (num (naturalHeight img)) (Fin r), geo_x = Fin 128,
           geo_y = js_div (js_sub (num 256) (js_mul (num (naturalHeight img)) (Fin r)))
             (Fin 2)\<rparr>"
    if z: "naturalWidth img = 0 \<and> 0 < naturalHeight img"
  proof -
    obtain r where r: "js_div (num 256) (num (naturalHeight img)) = Fin r" and r0: "0 \<le> r"
      using ratio_256_finite [OF conjunct2 [OF z]] by blast
    have "fit_geometry 256 img =
        \<lparr>scale = Fin r, scaledWidth = Fin 0,
         scaledHeight = js_mul (num (naturalHeight img)) (Fin r), geo_x = Fin 128,
         geo_y = js_div (js_sub (num 256) (js_mul (num (naturalHeight img)) (Fin r)))
           (Fin 2)\<rparr>"
      using fit_geometry_zero_width [of img] z unfolding r by (elim conjE)
    then show ?thesis using r r0 by (intro exI conjI)
  qed
  have 5: "\<exists>r. 0 \<le> r \<and> js_div (num 256) (num (naturalWidth img)) = Fin r
      \<and> fit_geometry 256 img =
          \<lparr>scale = Fin r, scaledWidth = js_mul (num (naturalWidth img)) (Fin r),
           scaledHeight = Fin 0,
           geo_x = js_div (js_sub (num 256) (js_mul (num (naturalWidth img)) (Fin r)))
             (Fin 2),
           geo_y = Fin 128\<rparr>"
    if z: "naturalHeight img = 0 \<and> 0 < naturalWidth img"
  proof -
    obtain r where r: "js_div (num 256) (num (naturalWidth img)) = Fin r" and r0: "0 \<le> r"
      using ratio_256_finite [OF conjunct2 [OF z]] by blast
    have "fit_geometry 256 img =
        \<lparr>scale = Fin r, scaledWidth = js_mul (num (naturalWidth img)) (Fin r),
         scaledHeight = Fin 0,
         geo_x = js_div (js_sub (num 256) (js_mul (num (naturalWidth img)) (Fin r)))
           (Fin 2),
         geo_y = Fin 128\<rparr>"
      using fit_geometry_zero_height [of img] z unfolding r by (elim conjE)
    then show ?thesis using r r0 by (intro exI conjI)
  qed
  have 6: "naturalWidth img = 0 \<longrightarrow> js_div (num 256) (num (naturalWidth img)) = PosInf"
    and 7: "naturalHeight img = 0 \<longrightarrow> js_div (num 256) (num (naturalHeight img)) = PosInf"
    by (simp_all add: num_def)
  have 8: "scale (fit_geometry 256 img) \<noteq> NaN" by (rule scale_not_NaN) simp
  have 9: "naturalWidth img = 0 \<and> naturalHeight img = 0 \<longrightarrow>
      fit_geometry 256 img =
        \<lparr>scale = PosInf, scaledWidth = NaN, scaledHeight = NaN, geo_x = NaN, geo_y = NaN\<rparr>"
    using fit_geometry_both_zero [of img] by (intro impI) (elim conjE)
  show ?thesis
    by (intro conjI 1 2 3 6 7 8 9 impI 4 5) simp_all
qed

theorem zero_dimension_not_rejected_witness:
  "isValidImageType (file_type png_file)
   \<and> readAsDataURL (example_browser 0 50 True) (file_type png_file) (file_bytes png_file) =
       Some ''data:image/png;base64,iVBORw0KGgo=''
   \<and> loadImage (example_browser 0 50 True) ''data:image/png;base64,iVBORw0KGgo='' =
       Some (example_image 0 50)
   \<and> decode (example_browser 0 50 True) (example_image 0 50) = None
   \<and> getContext (example_browser 0 50 True)
   \<and> toDataURL (example_browser 0 50 True) (draw 256 True (example_image 0 50)) =
       Inr ''data:image/png;base64,iVBORw0KGgo=''
   \<and> naturalWidth (example_image 0 50) = 0 \<and> 0 < naturalHeight (example_image 0 50)
   \<and> error (processImage (example_browser 0 50 True) png_file example_state) = None
   \<and> outputData (processImage (example_browser 0 50 True) png_file example_state) =
       Some (example_output 256 256)
   \<and> js_div (num 256) (num (naturalWidth (example_image 0 50))) = PosInf
   \<and> js_div (num 256) (num (naturalHeight (example_image 0 50))) =
       Fin (5764607523034235 / 1125899906842624)
   \<and> fit_geometry 256 (example_image 0 50) =
       \<lparr>scale = Fin (5764607523034235 / 1125899906842624), scaledWidth = Fin 0,
        scaledHeight = Fin 256, geo_x = Fin 128, geo_y = Fin 0\<rparr>"
proof -
  let ?B = "example_browser 0 50 True"
  have v: "isValidImageType (file_type png_file)"
    and r: "readAsDataURL ?B (file_type png_file) (file_bytes png_file) =
      Some ''data:image/png;base64,iVBORw0KGgo=''"
    and l: "loadImage ?B ''data:image/png;base64,iVBORw0KGgo='' = Some (example_image 0 50)"
    and d: "decode ?B (example_image 0 50) = None"
    and g: "getContext ?B"
    by (simp_all add: example_read)
  have t: "toDataURL ?B (draw 256 True (example_image 0 50)) =
      Inr ''data:image/png;base64,iVBORw0KGgo=''"
    by (rule example_toDataURL) (simp_all add: draw_size_256)
  have z: "naturalWidth (example_image 0 50) = 0 \<or> naturalHeight (example_image 0 50) = 0"
    and z': "naturalWidth (example_image 0 50) = 0" "0 < naturalHeight (example_image 0 50)"
    by (simp_all add: example_image_def)
  have b: "js_div (num 256) (num (naturalHeight (example_image 0 50))) =
      Fin (5764607523034235 / 1125899906842624)"
    using fl_5_12 by (simp add: num_def example_image_def)
  note th = zero_dimension_not_rejected [OF v r l d g t z, of example_state]
  have e: "error (processImage ?B png_file example_state) = None" using th by blast
  have "\<exists>base64Data. at_index (js_split CHR '','' ''data:image/png;base64,iVBORw0KGgo='') 1 =
        Some base64Data
      \<and> outputData (processImage ?B png_file example_state) =
          Some \<lparr>dataUri = ''data:image/png;base64,iVBORw0KGgo='',
                outputSizeKB = outputSizeKB_of (outputSizeBytes_of base64Data),
                outputWidth = 256, outputHeight = 256\<rparr>"
    using th by blast
  then have o: "outputData (processImage ?B png_file example_state) =
      Some (example_output 256 256)"
    by (auto simp: example_output_def)
  have i: "js_div (num 256) (num (naturalWidth (example_image 0 50))) = PosInf"
    using th z'(1) by blast
  have "\<exists>r. 0 \<le> r \<and> js_div (num 256) (num (naturalHeight (example_image 0 50))) = Fin r
      \<and> fit_geometry 256 (example_image 0 50) =
          \<lparr>scale = Fin r, scaledWidth = Fin 0,
           scaledHeight = js_mul (num (naturalHeight (example_image 0 50))) (Fin r),
           geo_x = Fin 128,
           geo_y = js_div (js_sub (num 256)
             (js_mul (num (naturalHeight (example_image 0 50))) (Fin r))) (Fin 2)\<rparr>"
    using th z' by blast
  then have "scale (fit_geometry 256 (example_image 0 50)) =
      Fin (5764607523034235 / 1125899906842624)"
    unfolding b by auto
  then have f: "fit_geometry 256 (example_image 0 50) =
      \<lparr>scale = Fin (5764607523034235 / 1125899906842624), scaledWidth = Fin 0,
       scaledHeight = Fin 256, geo_x = Fin 128, geo_y = Fin 0\<rparr>"
    by (simp add: example_0_50)
  show ?thesis
    using v r l d g t z' e o i b f by (intro conjI)
qed


section \<open>Size accounting (C4)\<close>

lemma outputSizeBytes_of_eq:
  assumes "length base64Data < 2 ^ 49"
  shows "outputSizeBytes_of base64Data =
    Fin (of_int \<lfloor>of_nat (length base64Data) * 3 / 4 + 1 / 2 :: rat\<rfloor>)"
proof -
  let ?n = "length base64Data"
  have "3 * ?n < 2 ^ 53" using assms by simp
  then have "fl (of_nat (3 * ?n)) = Fin (of_nat (3 * ?n))" by (rule fl_of_nat)
  then have 1: "js_mul (num ?n) (Fin 3) = Fin (of_nat ?n * 3)"
    by (simp add: num_def mult.commute)
  have "int (3 * ?n) < 2 ^ 53" using assms by simp
  then have "fl (of_int (int (3 * ?n)) / 2 ^ 2) = Fin (of_int (int (3 * ?n)) / 2 ^ 2)"
    by (intro fl_dyadic) simp_all
  then have 2: "js_div (Fin (of_nat ?n * 3)) (Fin 4) = Fin (of_nat ?n * 3 / 4)"
    by (simp add: mult.commute)
  show ?thesis unfolding outputSizeBytes_of_def 1 2 by simp
qed

lemma round_is_ceiling:
  assumes "n mod 4 \<noteq> 3"
  shows "\<lfloor>of_nat n * 3 / 4 + 1 / 2 :: rat\<rfloor> = \<lceil>of_nat n * 3 / 4 :: rat\<rceil>"
proof -
  obtain k r where n: "n = 4 * k + r" and r: "r < 4"
    by (metis mod_less_divisor mult_div_mod_eq zero_less_numeral)
  then have "r = 0 \<or> r = 1 \<or> r = 2" using assms by (auto simp: n)
  then show ?thesis
  proof (elim disjE)
    assume "r = 0"
    then have e: "(of_nat n * 3 / 4 :: rat) = of_int (3 * int k)" by (simp add: n)
    have "\<lfloor>of_int (3 * int k) + 1 / 2 :: rat\<rfloor> = 3 * int k"
      by (rule floor_unique) simp_all
    then show ?thesis unfolding e by (simp only: ceiling_of_int)
  next
    assume "r = 1"
    then have e: "(of_nat n * 3 / 4 :: rat) = of_int (3 * int k) + 3 / 4"
      by (simp add: n field_simps)
    have "\<lfloor>of_int (3 * int k) + 3 / 4 + 1 / 2 :: rat\<rfloor> = 3 * int k + 1"
      by (rule floor_unique) simp_all
    moreover have "\<lceil>of_int (3 * int k) + 3 / 4 :: rat\<rceil> = 3 * int k + 1"
      by (rule ceiling_unique) simp_all
    ultimately show ?thesis unfolding e by simp
  next
    assume "r = 2"
    then have e: "(of_nat n * 3 / 4 :: rat) = of_int (3 * int k + 1) + 1 / 2"
      by (simp add: n field_simps)
    have "\<lfloor>of_int (3 * int k + 1) + 1 / 2 + 1 / 2 :: rat\<rfloor> = 3 * int k + 2"
      by (rule floor_unique) simp_all
    moreover have "\<lceil>of_int (3 * int k + 1) + 1 / 2 :: rat\<rceil> = 3 * int k + 2"
      by (rule ceiling_unique) simp_all
    ultimately show ?thesis unfolding e by simp
  qed
qed

lemma outputSizeKB_of_eq:
  assumes "0 \<le> b" and "b < 2 ^ 49"
  shows "outputSizeKB_of (Fin (of_int b)) =
    fl (of_int \<lfloor>of_int b / 1024 * 10 + 1 / 2 :: rat\<rfloor> / 10)"
proof -
  have "fl (of_int b / 2 ^ 10) = Fin (of_int b / 2 ^ 10)"
    using assms by (intro fl_dyadic) simp_all
  then have 1: "js_div (Fin (of_int b)) (Fin 1024) = Fin (of_int b / 1024)" by simp
  have "fl (of_int (10 * b) / 2 ^ 10) = Fin (of_int (10 * b) / 2 ^ 10)"
    using assms by (intro fl_dyadic) simp_all
  then have 2: "js_mul (Fin (of_int b / 1024)) (Fin 10) = Fin (of_int b / 1024 * 10)"
    by (simp add: mult.commute)
  show ?thesis unfolding outputSizeKB_of_def 1 2 by simp
qed

lemma size_formula:
  assumes "length base64Data < 2 ^ 49"
  shows "outputSizeKB_of (outputSizeBytes_of base64Data) =
    fl (of_int \<lfloor>of_int \<lfloor>of_nat (length base64Data) * 3 / 4 + 1 / 2 :: rat\<rfloor> / 1024 * 10
          + 1 / 2 :: rat\<rfloor> / 10)"
proof -
  let ?n = "length base64Data"
  let ?b = "\<lfloor>of_nat ?n * 3 / 4 + 1 / 2 :: rat\<rfloor>"
  have "(0::rat) \<le> of_nat ?n * 3 / 4 + 1 / 2" by simp
  then have b0: "0 \<le> ?b" by (simp only: zero_le_floor)
  have "(of_nat ?n :: rat) < of_nat (2 ^ 49)" using assms by (simp only: of_nat_less_iff)
  then have "(of_nat ?n * 3 / 4 + 1 / 2 :: rat) < of_int (2 ^ 49)" by simp
  then have b1: "?b < 2 ^ 49" by (simp only: floor_less_iff)
  show ?thesis
    unfolding outputSizeBytes_of_eq [OF assms] by (rule outputSizeKB_of_eq [OF b0 b1])
qed

lemma size_1368:
  assumes "length base64Data = 1368"
  shows "outputSizeKB_of (outputSizeBytes_of base64Data) = Fin 1"
proof -
  have "fl 1 = Fin 1" using fl_of_nat [of 1] by simp
  moreover have "\<lfloor>1368 * 3 / 4 + 1 / 2 :: rat\<rfloor> = 1026" by (rule floor_unique) simp_all
  moreover have "\<lfloor>1026 / 1024 * 10 + 1 / 2 :: rat\<rfloor> = 10" by (rule floor_unique) simp_all
  ultimately show ?thesis using size_formula [of base64Data] by (simp add: assms)
qed

text \<open>
  C4. In a successful conversion the reported size is computed from the base64 payload of
  the data URI (the text after the comma), whose length is a multiple of 4. The code
  rounds \<open>length * 3 / 4\<close> with \<^verbatim>\<open>Math.round\<close>, which for such a length is the ceiling of
  \<open>length * 3 / 4\<close>; the size in KB is then \<open>round(bytes / 1024 * 10) / 10\<close>. For a payload
  of fewer than \<open>2^49\<close> characters the divisions and the product before the last are exact
  in binary64, and the last quotient is rounded to binary64. A payload of 1368 characters
  gives 1026 bytes and 1.0 KB. This holds for the function of every render \<open>r\<close>;
  \<^verbatim>\<open>processImage\<close> is the one of the first render.
\<close>

theorem size_accounting:
  assumes "result (processImage_try r B file) = Inr out"
  shows "\<exists>base64Data.
      at_index (js_split CHR '','' (dataUri out)) 1 = Some base64Data
    \<and> 4 dvd length base64Data
    \<and> outputSizeKB out = outputSizeKB_of (outputSizeBytes_of base64Data)
    \<and> (length base64Data < 2 ^ 49 \<longrightarrow>
        outputSizeBytes_of base64Data =
          Fin (of_int \<lceil>of_nat (length base64Data) * 3 / 4 :: rat\<rceil>)
        \<and> outputSizeKB out =
          fl (of_int \<lfloor>of_int \<lceil>of_nat (length base64Data) * 3 / 4 :: rat\<rceil> / 1024 * 10
                + 1 / 2 :: rat\<rfloor> / 10))
    \<and> (length base64Data = 1368 \<longrightarrow> outputSizeKB out = Fin 1)"
proof -
  obtain img uri base64Data where
    t: "toDataURL B (draw (canvasSize r) (fitToSquare r) img) = Inr uri"
    and a: "at_index (js_split CHR '','' uri) 1 = Some base64Data"
    and o: "dataUri out = uri" "outputSizeKB out = outputSizeKB_of (outputSizeBytes_of base64Data)"
    using processImage_try_success [OF assms] by fastforce
  have d: "4 dvd length base64Data" using toDataURL_payload [OF t] a by auto
  then have m: "length base64Data mod 4 \<noteq> 3" by presburger
  have "outputSizeBytes_of base64Data =
        Fin (of_int \<lceil>of_nat (length base64Data) * 3 / 4 :: rat\<rceil>)
      \<and> outputSizeKB_of (outputSizeBytes_of base64Data) =
        fl (of_int \<lfloor>of_int \<lceil>of_nat (length base64Data) * 3 / 4 :: rat\<rceil> / 1024 * 10
              + 1 / 2 :: rat\<rfloor> / 10)"
    if "length base64Data < 2 ^ 49"
    using size_formula [OF that] outputSizeBytes_of_eq [OF that]
    unfolding round_is_ceiling [OF m] by simp
  then show ?thesis using a d o size_1368 [of base64Data] by auto
qed

theorem size_accounting_witness:
  "result (processImage_try initial_state (payload_browser (replicate 1026 0)) png_file) =
     Inr (payload_output (replicate 1026 0))
   \<and> at_index (js_split CHR '','' (dataUri (payload_output (replicate 1026 0)))) 1 =
     Some (base64 (replicate 1026 0))
   \<and> length (base64 (replicate 1026 0)) = 1368
   \<and> \<lceil>of_nat (length (base64 (replicate 1026 0))) * 3 / 4 :: rat\<rceil> = 1026
   \<and> outputSizeKB (payload_output (replicate 1026 0)) = Fin 1"
proof -
  let ?bs = "replicate 1026 (0::nat)"
  have r: "result (processImage_try initial_state (payload_browser ?bs) png_file) =
      Inr (payload_output ?bs)"
    by (rule payload_try)
  have a: "at_index (js_split CHR '','' (dataUri (payload_output ?bs))) 1 = Some (base64 ?bs)"
    using js_split_data_uri [OF base64_no_comma, of ?bs]
    by (simp only: payload_output_def OutputData.simps)
  have n: "length (base64 ?bs) = 1368" by (simp add: length_base64)
  have "\<lceil>1368 * 3 / 4 :: rat\<rceil> = 1026" by (rule ceiling_unique) simp_all
  then have k: "\<lceil>of_nat (length (base64 ?bs)) * 3 / 4 :: rat\<rceil> = 1026"
    by (simp add: n)
  have "outputSizeKB (payload_output ?bs) = Fin 1"
    using size_accounting [OF r] a n by auto
  then show ?thesis using r a n k by simp
qed

section \<open>Rejection of unsupported types (C5)\<close>

text \<open>
  C5. A file whose declared type is outside the whitelist (image/png, image/jpeg,
  image/webp, image/svg+xml) is rejected with the message "Unsupported file type ..."
  before any platform call: nothing is read, loaded or decoded, and neither the output
  nor the metadata changes. This holds for the function of every render \<open>r\<close>;
  \<^verbatim>\<open>processImage\<close> is the one of the first render.
\<close>

theorem unsupported_type_rejected:
  assumes "file_type file \<notin> {''image/png'', ''image/jpeg'', ''image/webp'', ''image/svg+xml''}"
  shows "calls (processImage_try r B file) = []
    \<and> result (processImage_try r B file) = Inl (Error (unsupported_message (file_type file)))
    \<and> error (processImage_callback r B file s) = Some (unsupported_message (file_type file))
    \<and> outputData (processImage_callback r B file s) = outputData s
    \<and> imageMetadata (processImage_callback r B file s) = imageMetadata s"
proof -
  have "\<not> isValidImageType (file_type file)"
    using assms by (simp only: isValidImageType_iff not_False_eq_True)
  then have a: "processImage_try r B file =
      \<lparr>calls = [], metadata = None, fit = None, painted = None,
       result = Inl (Error (unsupported_message (file_type file)))\<rparr>"
    by (simp add: processImage_try_def)
  show ?thesis
    by (simp add: a processImage_callback_outputData processImage_callback_error
        processImage_callback_imageMetadata)
qed

theorem unsupported_type_rejected_witness:
  "file_type gif_file \<notin> {''image/png'', ''image/jpeg'', ''image/webp'', ''image/svg+xml''}
   \<and> calls (processImage_try initial_state (example_browser 100 50 True) gif_file) = []
   \<and> error (processImage (example_browser 100 50 True) gif_file example_state) =
       Some ''Unsupported file type: image/gif. Please use PNG, JPEG, WEBP, or SVG.''
   \<and> outputData (processImage (example_browser 100 50 True) gif_file example_state) =
       Some (example_output 64 64)
   \<and> imageMetadata (processImage (example_browser 100 50 True) gif_file example_state) = None"
proof -
  have h: "file_type gif_file \<notin> {''image/png'', ''image/jpeg'', ''image/webp'', ''image/svg+xml''}"
    by (simp add: gif_file_def)
  show ?thesis
    using h unsupported_type_rejected [OF h, of initial_state "example_browser 100 50 True"
        example_state]
    by (simp add: processImage_def unsupported_message_def gif_file_def example_state_def
        initial_state_def)
qed


section \<open>Proportions and containment of the rectangle (C6)\<close>

text \<open>
  The canvas size 256 is a power of two: a product within \<open>2^-45\<close> of 256 rounds to 256 or
  below, and the difference between 256 and a binary64 value above 128 is computed
  exactly.
\<close>

lemma fl_256_tie: "fl (256 + 1 / 2 ^ 45) = Fin 256"
proof -
  let ?q = "256 + 1 / 2 ^ 45 :: rat"
  have "ilog2 ?q = 8" by (rule ilog2_eq) simp_all
  then have u: "ulp ?q = 2 powi (- 44)" by (simp add: ulp_def exponent_def)
  have d: "?q / 2 powi (- 44) = of_int 4503599627370496 + 1 / 2"
    by (simp add: power_int_minus_divide)
  have f: "\<lfloor>of_int 4503599627370496 + 1 / 2 :: rat\<rfloor> = 4503599627370496"
    by (rule floor_unique) simp_all
  have n: "round_half_even (?q / 2 powi (- 44)) = 4503599627370496"
    unfolding d round_half_even_def Let_def f by simp
  have "\<bar>?q\<bar> < 2 powi 1023" by simp
  then have "fl ?q = Fin (of_int (round_half_even (?q / ulp ?q)) * ulp ?q)"
    by (rule fl_finite(1))
  then have "fl ?q = Fin (of_int 4503599627370496 * 2 powi (- 44))"
    by (simp only: u n)
  then show ?thesis by (simp add: power_int_minus_divide)
qed

lemma fl_powers: "fl 256 = Fin 256" "fl 128 = Fin 128" "fl 64 = Fin 64"
  using fl_of_nat [of 256] fl_of_nat [of 128] fl_of_nat [of 64] by simp_all

lemma scaled_side_le_256:
  assumes "0 < q" and "q \<le> 256 + 1 / 2 ^ 45" and "fl q = Fin r"
  shows "r \<le> 256"
proof -
  have "(256 + 1 / 2 ^ 45 :: rat) < 2 powi 1023" by simp
  then show ?thesis using assms fl_256_tie by (intro fl_mono [of q "256 + 1 / 2 ^ 45" r 256])
qed


lemma offset_within_256:
  assumes "0 < q" and "q \<le> 256 + 1 / 2 ^ 45" and "fl q = Fin r"
  shows "\<exists>x. js_div (js_sub (Fin 256) (Fin r)) (Fin 2) = Fin x \<and> 0 \<le> x \<and> x + r \<le> 256"
proof -
  have big: "(256 :: rat) < 2 powi 1023" "(128 :: rat) < 2 powi 1023" by simp_all
  have pos: "(0 :: rat) < 256" "(0 :: rat) < 128" "(0 :: rat) < 64" by simp_all
  have "q \<le> 257" using assms(2) by simp
  also have "\<dots> < (2::rat) powi 1023" by simp
  finally have q_fin: "q < 2 powi 1023" .
  then have fin: "\<bar>q\<bar> < 2 powi 1023" using assms(1) by simp
  have r0: "0 \<le> r" using fl_sign(1) [OF fin assms(3)] assms(1) by simp
  have r256: "r \<le> 256" using assms by (rule scaled_side_le_256)
  consider (A) "q \<le> 128" | (B) "128 < q" "q < 256" | (C) "256 \<le> q" by linarith
  then show ?thesis
  proof cases
    case A
    have r128: "r \<le> 128"
      by (rule fl_mono [OF assms(1) A big(2) assms(3) fl_powers(2)])
    define d where "d = 256 - r"
    have d: "128 \<le> d" "d \<le> 256" using r0 r128 by (simp_all add: d_def)
    then have d0: "0 < d" and d_fin: "\<bar>d\<bar> < 2 powi 1023" using big(1) by simp_all
    obtain rd where rd: "fl d = Fin rd" using fl_finite(1) [OF d_fin] by blast
    have d_lt: "d < 2 powi 1023" using d(2) big(1) by simp
    have rd1: "128 \<le> rd"
      by (rule fl_mono [OF pos(2) d(1) d_lt fl_powers(2) rd])
    have rd2: "rd \<le> 256"
      by (rule fl_mono [OF d0 d(2) big(1) rd fl_powers(1)])
    define h where "h = rd / 2"
    have h: "64 \<le> h" "h \<le> 128" using rd1 rd2 by (simp_all add: h_def)
    then have h0: "0 < h" and h_fin: "\<bar>h\<bar> < 2 powi 1023" using big(2) by simp_all
    obtain x where x: "fl h = Fin x" using fl_finite(1) [OF h_fin] by blast
    have h_lt: "h < 2 powi 1023" using h(2) big(2) by simp
    have x1: "64 \<le> x"
      by (rule fl_mono [OF pos(3) h(1) h_lt fl_powers(3) x])
    have x2: "x \<le> 128"
      by (rule fl_mono [OF h0 h(2) big(2) x fl_powers(2)])
    have "js_div (js_sub (Fin 256) (Fin r)) (Fin 2) = Fin x"
      using rd x by (simp add: d_def h_def)
    moreover have "0 \<le> x" using x1 by simp
    moreover have "x + r \<le> 256" using x2 r128 by simp
    ultimately show ?thesis by blast
  next
    case B
    have "2 powi 7 \<le> q" and "q < 2 powi (7 + 1)" using B by simp_all
    then have e: "ilog2 q = 7" by (rule ilog2_eq)
    have u: "ulp q = 1 / 2 ^ 45"
      using assms(1) by (simp add: ulp_def exponent_def e power_int_minus_divide)
    define n where "n = round_half_even (q / ulp q)"
    have r: "r = of_int n / 2 ^ 45"
      using fl_finite(1) [OF fin] assms(3) by (simp add: n_def u)
    have "(of_int n :: rat) \<le> of_int (2 ^ 53)" using r256 by (simp add: r field_simps)
    then have n1: "n \<le> 2 ^ 53" by (simp only: of_int_le_iff)
    have "of_int (2 ^ 52) \<le> q / ulp q" using B(1) by (simp add: u)
    then have n2: "2 ^ 52 \<le> n" unfolding n_def by (rule round_half_even_ge)
    define m where "m = 2 ^ 53 - n"
    have m: "0 \<le> m" "m < 2 ^ 53" using n1 n2 by (simp_all add: m_def)
    have d: "256 - r = of_int m / 2 ^ 45" by (simp add: r m_def field_simps)
    have 1: "fl (of_int m / 2 ^ 45) = Fin (of_int m / 2 ^ 45)"
      using m by (intro fl_dyadic) simp_all
    have 2: "fl (of_int m / 2 ^ 46) = Fin (of_int m / 2 ^ 46)"
      using m by (intro fl_dyadic) simp_all
    have s: "js_sub (Fin 256) (Fin r) = Fin (of_int m / 2 ^ 45)"
      using 1 by (simp add: d)
    have "(of_int m / 2 ^ 45 / 2 :: rat) = of_int m / 2 ^ 46" by simp
    then have "js_div (Fin (of_int m / 2 ^ 45)) (Fin 2) = Fin (of_int m / 2 ^ 46)"
      using 2 by simp
    then have "js_div (js_sub (Fin 256) (Fin r)) (Fin 2) = Fin (of_int m / 2 ^ 46)"
      by (simp only: s)
    moreover have "(0::rat) \<le> of_int m / 2 ^ 46" using m(1) by simp
    moreover have "of_int m / 2 ^ 46 + r \<le> 256"
    proof -
      have half: "(of_int m / 2 ^ 46 :: rat) = (256 - r) / 2" unfolding d by simp
      show ?thesis unfolding half using r256 by (simp add: field_simps)
    qed
    ultimately show ?thesis by blast
  next
    case C
    have "256 \<le> r"
      by (rule fl_mono [OF pos(1) C q_fin fl_powers(1) assms(3)])
    then have "r = 256" using r256 by simp
    then show ?thesis by (simp add: fl_def)
  qed
qed


lemma ratio_bounds:
  assumes "0 < n" and "n < 2 ^ 32" and "8 \<le> c" and "c \<le> 2048"
  shows "\<exists>r. js_div (num c) (num n) = Fin r
    \<and> of_nat c * (1 - 1 / 2 ^ 53) \<le> of_nat n * r
    \<and> of_nat n * r \<le> of_nat c * (1 + 1 / 2 ^ 53)
    \<and> 1 / 2 ^ 30 \<le> r"
proof -
  define C N q :: rat where "C = of_nat c" and "N = of_nat n" and "q = C / N"
  have N: "1 \<le> N" using assms(1) by (simp add: N_def Suc_le_eq)
  have "N < of_nat (2 ^ 32)" unfolding N_def using assms(2) by (simp only: of_nat_less_iff)
  then have N32: "N < 4294967296" by simp
  have "(of_nat 8 :: rat) \<le> C" unfolding C_def using assms(3) by (simp only: of_nat_le_iff)
  then have C8: "8 \<le> C" by simp
  have "C \<le> of_nat 2048" unfolding C_def using assms(4) by (simp only: of_nat_le_iff)
  then have C2048: "C \<le> 2048" by simp
  have Nq: "N * q = C" using N by (simp add: q_def)
  have q_lo: "1 / 536870912 \<le> q"
  proof -
    have "1 / 536870912 * N \<le> C" using C8 N32 by simp
    then show ?thesis unfolding q_def using N by (simp add: pos_le_divide_eq)
  qed
  have q_hi: "q \<le> 2048"
  proof -
    have "C \<le> 2048 * N" using C2048 N by linarith
    then show ?thesis unfolding q_def using N by (simp add: pos_divide_le_eq)
  qed
  have q_pos: "0 < q" using q_lo by (rule less_le_trans [rotated]) simp
  have n1: "2 powi (- 1022) \<le> \<bar>q\<bar>"
  proof -
    have "(2::rat) powi (- 1022) \<le> 2 powi (- 29)" by (rule powi2_mono) simp
    also have "\<dots> = 1 / 536870912" by (simp add: power_int_minus_divide)
    also have "\<dots> \<le> \<bar>q\<bar>" using q_lo q_pos by simp
    finally show ?thesis .
  qed
  have n2: "\<bar>q\<bar> < 2 powi 1023"
  proof -
    have "\<bar>q\<bar> \<le> 2 powi 11" using q_hi q_pos by simp
    also have "\<dots> < (2::rat) powi 1023" by (rule powi2_strict_mono) simp
    finally show ?thesis .
  qed
  obtain r where r: "fl q = Fin r" and e: "\<bar>r - q\<bar> \<le> \<bar>q\<bar> / 2 ^ 53"
    using fl_relative_error [OF n1 n2] by blast
  have e': "\<bar>r - q\<bar> \<le> q / 9007199254740992" using e q_pos by simp
  have "N * (q - q / 9007199254740992) \<le> N * r"
    using e' N by (intro mult_left_mono) linarith+
  moreover have "N * (q - q / 9007199254740992) = N * q * (1 - 1 / 2 ^ 53)"
    by (simp add: algebra_simps)
  ultimately have 1: "C * (1 - 1 / 2 ^ 53) \<le> N * r" by (simp only: Nq)
  have "N * r \<le> N * (q + q / 9007199254740992)"
    using e' N by (intro mult_left_mono) linarith+
  moreover have "N * (q + q / 9007199254740992) = N * q * (1 + 1 / 2 ^ 53)"
    by (simp add: algebra_simps)
  ultimately have 2: "N * r \<le> C * (1 + 1 / 2 ^ 53)" by (simp only: Nq)
  have "q - q / 9007199254740992 \<le> r" using e' by linarith
  then have 3: "1 / 2 ^ 30 \<le> r" using q_lo by simp
  have "js_div (num c) (num n) = Fin r" using assms(1) r by (simp add: num_def q_def C_def N_def)
  then show ?thesis using 1 2 3 unfolding C_def N_def by blast
qed

lemma scaled_side_bounds:
  assumes "1 \<le> N" and "1 / 2 ^ 30 \<le> s" and "N * s \<le> 4096"
  shows "\<exists>r. fl (N * s) = Fin r
    \<and> N * s * (1 - 1 / 2 ^ 53) \<le> r \<and> r \<le> N * s * (1 + 1 / 2 ^ 53)"
proof -
  define q where "q = N * s"
  have s: "0 < s" using assms(2) by (rule less_le_trans [rotated]) simp
  have "s \<le> N * s" using assms(1) s by simp
  moreover have "1 / 1073741824 \<le> s" using assms(2) by simp
  ultimately have q_lo: "1 / 1073741824 \<le> q" unfolding q_def by (rule order_trans [rotated])
  then have q_pos: "0 < q" by (rule less_le_trans [rotated]) simp
  have n1: "2 powi (- 1022) \<le> \<bar>q\<bar>"
  proof -
    have "(2::rat) powi (- 1022) \<le> 2 powi (- 30)" by (rule powi2_mono) simp
    also have "\<dots> = 1 / 1073741824" by (simp add: power_int_minus_divide)
    also have "\<dots> \<le> \<bar>q\<bar>" using q_lo q_pos by simp
    finally show ?thesis .
  qed
  have n2: "\<bar>q\<bar> < 2 powi 1023"
  proof -
    have "\<bar>q\<bar> \<le> 2 powi 12" using assms(3) q_pos by (simp add: q_def)
    also have "\<dots> < (2::rat) powi 1023" by (rule powi2_strict_mono) simp
    finally show ?thesis .
  qed
  obtain r where r: "fl q = Fin r" and e: "\<bar>r - q\<bar> \<le> \<bar>q\<bar> / 2 ^ 53"
    using fl_relative_error [OF n1 n2] by blast
  have e': "\<bar>r - q\<bar> \<le> q / 9007199254740992" using e q_pos by simp
  have "q - q / 9007199254740992 \<le> r" and "r \<le> q + q / 9007199254740992"
    using e' by linarith+
  moreover have "q - q / 9007199254740992 = q * (1 - 1 / 2 ^ 53)"
    and "q + q / 9007199254740992 = q * (1 + 1 / 2 ^ 53)"
    by (simp_all add: algebra_simps)
  ultimately have "q * (1 - 1 / 2 ^ 53) \<le> r \<and> r \<le> q * (1 + 1 / 2 ^ 53)" by simp
  then show ?thesis using r unfolding q_def by blast
qed

lemma aspect_ratio_bound:
  fixes A B sw sh :: rat
  assumes "0 < A" and "0 < B"
    and "A * (1 - 1 / 2 ^ 53) \<le> sw" and "sw \<le> A * (1 + 1 / 2 ^ 53)"
    and "B * (1 - 1 / 2 ^ 53) \<le> sh" and "sh \<le> B * (1 + 1 / 2 ^ 53)"
  shows "\<bar>sw / sh - A / B\<bar> \<le> A / B / 2 ^ 51"
proof -
  define X Y Z where "X = sw * B" and "Y = A * sh" and "Z = A * B"
  have Z: "0 < Z" using assms(1,2) by (simp add: Z_def)
  have "B * (1 - 1 / 2 ^ 53) > 0" using assms(2) by simp
  then have sh: "0 < sh" using assms(5) by linarith
  have x1: "Z * (1 - 1 / 2 ^ 53) \<le> X"
    using mult_right_mono [OF assms(3), of B] assms(2) by (simp add: X_def Z_def algebra_simps)
  have x2: "X \<le> Z * (1 + 1 / 2 ^ 53)"
    using mult_right_mono [OF assms(4), of B] assms(2) by (simp add: X_def Z_def algebra_simps)
  have y1: "Z * (1 - 1 / 2 ^ 53) \<le> Y"
    using mult_left_mono [OF assms(5), of A] assms(1) by (simp add: Y_def Z_def algebra_simps)
  have y2: "Y \<le> Z * (1 + 1 / 2 ^ 53)"
    using mult_left_mono [OF assms(6), of A] assms(1) by (simp add: Y_def Z_def algebra_simps)
  have "X - Y \<le> Y / 2 ^ 51" and "- (X - Y) \<le> Y / 2 ^ 51"
    using x1 x2 y1 y2 Z by (simp_all add: field_simps)
  then have main: "\<bar>X - Y\<bar> \<le> Y / 2 ^ 51" by (rule abs_leI)
  have d: "0 < sh * B" using sh assms(2) by simp
  have 1: "sw / sh - A / B = (X - Y) / (sh * B)"
    using sh assms(2) by (simp add: X_def Y_def field_simps)
  have 2: "A / B / 2 ^ 51 = Y / 2 ^ 51 / (sh * B)"
    using sh assms(2) by (simp add: Y_def field_simps)
  have "\<bar>(X - Y) / (sh * B)\<bar> = \<bar>X - Y\<bar> / (sh * B)" using d by (simp add: abs_divide)
  also have "\<dots> \<le> Y / 2 ^ 51 / (sh * B)" using main d by (intro divide_right_mono) simp_all
  finally show ?thesis unfolding 1 2 .
qed

lemma example_1_49:
  "fit_geometry 256 (example_image 1 49) =
     \<lparr>scale = Fin (5882252574524729 / 1125899906842624),
      scaledWidth = Fin (5882252574524729 / 1125899906842624),
      scaledHeight = Fin (9007199254740991 / 35184372088832),
      geo_x = Fin (4411689430893547 / 35184372088832),
      geo_y = Fin (1 / 70368744177664)\<rparr>"
proof -
  let ?s = "5882252574524729 / 1125899906842624 :: rat"
  let ?h = "9007199254740991 / 35184372088832 :: rat"
  have "fl 256 = Fin 256" using fl_of_nat [of 256] by simp
  then have a: "js_div (num 256) (num 1) = Fin 256" by (simp add: num_def)
  have b: "js_div (num 256) (num 49) = Fin ?s"
    using fl_eval [where q = "256 / 49" and e = 2 and n = 5882252574524729]
    by (simp add: num_def)
  have s: "Math_min (Fin 256) (Fin ?s) = Fin ?s" by simp
  have w: "js_mul (num 1) (Fin ?s) = Fin ?s"
    using fl_exact [where q = ?s and m = 5882252574524729 and k = "- 50"]
    by (simp add: num_def power_int_minus_divide)
  have h: "js_mul (num 49) (Fin ?s) = Fin ?h"
    using fl_eval [where q = "49 * ?s" and e = 7 and n = 9007199254740991]
    by (simp add: num_def)
  have x1: "js_sub (num 256) (Fin ?s) = Fin (4411689430893547 / 17592186044416)"
    using fl_eval [where q = "256 - ?s" and e = 7 and n = 8823378861787094]
    by (simp add: num_def)
  have x2: "js_div (Fin (4411689430893547 / 17592186044416)) (Fin 2) =
      Fin (4411689430893547 / 35184372088832)"
    using fl_exact [where q = "4411689430893547 / 35184372088832"
        and m = 4411689430893547 and k = "- 45"]
    by (simp add: power_int_minus_divide)
  have y1: "js_sub (num 256) (Fin ?h) = Fin (1 / 35184372088832)"
    using fl_exact [where q = "1 / 35184372088832" and m = 1 and k = "- 45"]
    by (simp add: num_def power_int_minus_divide)
  have y2: "js_div (Fin (1 / 35184372088832)) (Fin 2) = Fin (1 / 70368744177664)"
    using fl_exact [where q = "1 / 70368744177664" and m = 1 and k = "- 46"]
    by (simp add: power_int_minus_divide)
  show ?thesis
    unfolding fit_geometry_def Let_def
    by (simp only: example_image_def image.simps a b s w h x1 x2 y1 y2)
qed

lemma ratio_1_49:
  "js_div (Fin (5882252574524729 / 1125899906842624)) (Fin (9007199254740991 / 35184372088832)) =
     Fin (2941126287262365 / 144115188075855872)"
  "js_div (num 1) (num 49) = Fin (5882252574524729 / 288230376151711744)"
proof -
  show "js_div (Fin (5882252574524729 / 1125899906842624))
      (Fin (9007199254740991 / 35184372088832)) = Fin (2941126287262365 / 144115188075855872)"
    using fl_eval [where q = "(5882252574524729 / 1125899906842624)
        / (9007199254740991 / 35184372088832)" and e = "- 6" and n = 5882252574524730]
    by (simp add: power_int_minus_divide)
  show "js_div (num 1) (num 49) = Fin (5882252574524729 / 288230376151711744)"
    using fl_eval [where q = "1 / 49" and e = "- 6" and n = 5882252574524729]
    by (simp add: num_def power_int_minus_divide)
qed


lemma fit_geometry_256:
  assumes "0 < naturalWidth img" and "naturalWidth img < 2 ^ 32"
    and "0 < naturalHeight img" and "naturalHeight img < 2 ^ 32"
  shows "\<exists>s sw sh x y.
      fit_geometry 256 img =
        \<lparr>scale = Fin s, scaledWidth = Fin sw, scaledHeight = Fin sh,
         geo_x = Fin x, geo_y = Fin y\<rparr>
    \<and> 0 < s \<and> 0 < sw \<and> 0 < sh
    \<and> \<bar>sw - of_nat (naturalWidth img) * s\<bar> \<le> of_nat (naturalWidth img) * s / 2 ^ 53
    \<and> \<bar>sh - of_nat (naturalHeight img) * s\<bar> \<le> of_nat (naturalHeight img) * s / 2 ^ 53
    \<and> \<bar>sw / sh - of_nat (naturalWidth img) / of_nat (naturalHeight img)\<bar>
        \<le> of_nat (naturalWidth img) / of_nat (naturalHeight img) / 2 ^ 51
    \<and> 0 \<le> x \<and> 0 \<le> y \<and> x + sw \<le> 256 \<and> y + sh \<le> 256"
proof -
  define W H :: rat where "W = of_nat (naturalWidth img)" and "H = of_nat (naturalHeight img)"
  have W: "1 \<le> W" using assms(1) by (simp add: W_def Suc_le_eq)
  have H: "1 \<le> H" using assms(3) by (simp add: H_def Suc_le_eq)
  have c: "(8::nat) \<le> 256" "(256::nat) \<le> 2048" by simp_all
  obtain ra where ra: "js_div (num 256) (num (naturalWidth img)) = Fin ra"
    and ra_hi: "W * ra \<le> 256 * (1 + 1 / 2 ^ 53)" and ra_lo: "1 / 2 ^ 30 \<le> ra"
    using ratio_bounds [OF assms(1,2) c] unfolding W_def by auto
  obtain rb where rb: "js_div (num 256) (num (naturalHeight img)) = Fin rb"
    and rb_hi: "H * rb \<le> 256 * (1 + 1 / 2 ^ 53)" and rb_lo: "1 / 2 ^ 30 \<le> rb"
    using ratio_bounds [OF assms(3,4) c] unfolding H_def by auto
  define s where "s = min ra rb"
  have s_lo: "1 / 2 ^ 30 \<le> s" using ra_lo rb_lo by (simp add: s_def)
  have s_pos: "0 < s" using s_lo by (rule less_le_trans [rotated]) simp
  have "W * s \<le> W * ra" using W by (intro mult_left_mono) (simp_all add: s_def)
  then have "W * s \<le> 256 * (1 + 1 / 2 ^ 53)" using ra_hi by (rule order_trans)
  then have Ws: "W * s \<le> 256 + 1 / 2 ^ 45" by simp
  have "H * s \<le> H * rb" using H by (intro mult_left_mono) (simp_all add: s_def)
  then have "H * s \<le> 256 * (1 + 1 / 2 ^ 53)" using rb_hi by (rule order_trans)
  then have Hs: "H * s \<le> 256 + 1 / 2 ^ 45" by simp
  have Ws0: "0 < W * s" and Hs0: "0 < H * s" using W H s_pos by simp_all
  have Ws': "W * s \<le> 4096" and Hs': "H * s \<le> 4096" using Ws Hs by simp_all
  obtain sw where sw: "fl (W * s) = Fin sw"
    and sw_lo: "W * s * (1 - 1 / 2 ^ 53) \<le> sw" and sw_hi: "sw \<le> W * s * (1 + 1 / 2 ^ 53)"
    using scaled_side_bounds [OF W s_lo Ws'] by blast
  obtain sh where sh: "fl (H * s) = Fin sh"
    and sh_lo: "H * s * (1 - 1 / 2 ^ 53) \<le> sh" and sh_hi: "sh \<le> H * s * (1 + 1 / 2 ^ 53)"
    using scaled_side_bounds [OF H s_lo Hs'] by blast
  obtain x where x: "js_div (js_sub (Fin 256) (Fin sw)) (Fin 2) = Fin x"
    and x0: "0 \<le> x" and x1: "x + sw \<le> 256"
    using offset_within_256 [OF Ws0 Ws sw] by blast
  obtain y where y: "js_div (js_sub (Fin 256) (Fin sh)) (Fin 2) = Fin y"
    and y0: "0 \<le> y" and y1: "y + sh \<le> 256"
    using offset_within_256 [OF Hs0 Hs sh] by blast
  have "0 < W * s * (1 - 1 / 2 ^ 53)" using Ws0 by simp
  then have sw0: "0 < sw" using sw_lo by (rule less_le_trans)
  have "0 < H * s * (1 - 1 / 2 ^ 53)" using Hs0 by simp
  then have sh0: "0 < sh" using sh_lo by (rule less_le_trans)
  have "sw - W * s \<le> W * s / 2 ^ 53" and "- (sw - W * s) \<le> W * s / 2 ^ 53"
    using sw_lo sw_hi by (simp_all add: field_simps)
  then have ew: "\<bar>sw - W * s\<bar> \<le> W * s / 2 ^ 53" by (rule abs_leI)
  have "sh - H * s \<le> H * s / 2 ^ 53" and "- (sh - H * s) \<le> H * s / 2 ^ 53"
    using sh_lo sh_hi by (simp_all add: field_simps)
  then have eh: "\<bar>sh - H * s\<bar> \<le> H * s / 2 ^ 53" by (rule abs_leI)
  have "\<bar>sw / sh - W * s / (H * s)\<bar> \<le> W * s / (H * s) / 2 ^ 51"
    using Ws0 Hs0 sw_lo sw_hi sh_lo sh_hi by (rule aspect_ratio_bound)
  moreover have "W * s / (H * s) = W / H" using s_pos by simp
  ultimately have ratio: "\<bar>sw / sh - W / H\<bar> \<le> W / H / 2 ^ 51" by simp
  have "fit_geometry 256 img =
      \<lparr>scale = Fin s, scaledWidth = Fin sw, scaledHeight = Fin sh,
       geo_x = Fin x, geo_y = Fin y\<rparr>"
    unfolding fit_geometry_def Let_def ra rb
    using sw sh x y by (simp add: s_def num_def W_def H_def)
  then show ?thesis
    using s_pos sw0 sh0 ew eh ratio x0 y0 x1 y1 unfolding W_def H_def by blast
qed


text \<open>
  C6, as stated, fails in binary64 arithmetic. For a 1 by 49 image, in the default
  configuration, the scaled width is the binary64 value of 256/49 and the scaled height is
  \<open>256 - 2^-45\<close>: scaledWidth / scaledHeight is not 1/49, neither as the exact quotient of
  the two values nor computed with the operator \<^verbatim>\<open>/\<close>.
\<close>

theorem draw_rect_counterexample:
  "0 < naturalWidth (example_image 1 49) \<and> 0 < naturalHeight (example_image 1 49)
   \<and> fit (processImage_try initial_state (example_browser 1 49 True) png_file) =
       Some \<lparr>scale = Fin (5882252574524729 / 1125899906842624),
             scaledWidth = Fin (5882252574524729 / 1125899906842624),
             scaledHeight = Fin (9007199254740991 / 35184372088832),
             geo_x = Fin (4411689430893547 / 35184372088832),
             geo_y = Fin (1 / 70368744177664)\<rparr>
   \<and> (5882252574524729 / 1125899906842624) / (9007199254740991 / 35184372088832)
       \<noteq> (of_nat (naturalWidth (example_image 1 49)) :: rat)
         / of_nat (naturalHeight (example_image 1 49))
   \<and> js_div (Fin (5882252574524729 / 1125899906842624))
         (Fin (9007199254740991 / 35184372088832))
       \<noteq> js_div (num (naturalWidth (example_image 1 49)))
           (num (naturalHeight (example_image 1 49)))"
proof -
  have "js_div (Fin (5882252574524729 / 1125899906842624))
        (Fin (9007199254740991 / 35184372088832))
      \<noteq> js_div (num (naturalWidth (example_image 1 49)))
          (num (naturalHeight (example_image 1 49)))"
    by (simp only: example_image_def image.simps ratio_1_49) simp
  moreover have "fit (processImage_try initial_state (example_browser 1 49 True) png_file) =
      Some \<lparr>scale = Fin (5882252574524729 / 1125899906842624),
            scaledWidth = Fin (5882252574524729 / 1125899906842624),
            scaledHeight = Fin (9007199254740991 / 35184372088832),
            geo_x = Fin (4411689430893547 / 35184372088832),
            geo_y = Fin (1 / 70368744177664)\<rparr>"
    by (simp only: example_try attempt.simps example_1_49)
  moreover have "(5882252574524729 / 1125899906842624) / (9007199254740991 / 35184372088832)
      \<noteq> (of_nat (naturalWidth (example_image 1 49)) :: rat)
        / of_nat (naturalHeight (example_image 1 49))"
    by (simp add: example_image_def)
  moreover have "0 < naturalWidth (example_image 1 49)" "0 < naturalHeight (example_image 1 49)"
    by (simp_all add: example_image_def)
  ultimately show ?thesis by (intro conjI)
qed

text \<open>
  C6, amended. In the default configuration (canvas size 256, fit to a square on), for an
  image with positive natural dimensions (below \<open>2^32\<close>), every value of the geometry is
  finite and positive, and \<^verbatim>\<open>drawImage\<close> receives the rectangle x, y, scaledWidth,
  scaledHeight on a canvas of 256 by 256. The rectangle keeps the proportions up to the
  rounding of binary64: each scaled side is the natural side times the scale, rounded once
  (relative error at most \<open>2^-53\<close>), so scaledWidth / scaledHeight differs from
  naturalWidth / naturalHeight by at most the fraction \<open>2^-51\<close> of it. The rectangle lies
  within the canvas, exactly: x and y are at least 0, and x + scaledWidth and
  y + scaledHeight are at most 256.
\<close>

theorem draw_rect_fits_canvas:
  assumes "isValidImageType (file_type file)"
    and "readAsDataURL B (file_type file) (file_bytes file) = Some dataUrl"
    and "loadImage B dataUrl = Some img"
    and "decode B img = None"
    and "getContext B"
    and "0 < naturalWidth img" and "naturalWidth img < 2 ^ 32"
    and "0 < naturalHeight img" and "naturalHeight img < 2 ^ 32"
  shows "\<exists>s sw sh x y.
      fit (processImage_try initial_state B file) =
        Some \<lparr>scale = Fin s, scaledWidth = Fin sw, scaledHeight = Fin sh,
              geo_x = Fin x, geo_y = Fin y\<rparr>
    \<and> painted (processImage_try initial_state B file) =
        Some \<lparr>canvas_width = 256, canvas_height = 256,
              drawn = [ClearRect (Fin 0) (Fin 0) (Fin 256) (Fin 256),
                       DrawImage img (Fin x) (Fin y) (Fin sw) (Fin sh)]\<rparr>
    \<and> 0 < s \<and> 0 < sw \<and> 0 < sh
    \<and> \<bar>sw - of_nat (naturalWidth img) * s\<bar> \<le> of_nat (naturalWidth img) * s / 2 ^ 53
    \<and> \<bar>sh - of_nat (naturalHeight img) * s\<bar> \<le> of_nat (naturalHeight img) * s / 2 ^ 53
    \<and> \<bar>sw / sh - of_nat (naturalWidth img) / of_nat (naturalHeight img)\<bar>
        \<le> of_nat (naturalWidth img) / of_nat (naturalHeight img) / 2 ^ 51
    \<and> 0 \<le> x \<and> 0 \<le> y \<and> x + sw \<le> 256 \<and> y + sh \<le> 256"
proof -
  note d = processImage_try_decoded [where r = initial_state, OF assms(1-4)]
  obtain s sw sh x y where
    g: "fit_geometry 256 img =
        \<lparr>scale = Fin s, scaledWidth = Fin sw, scaledHeight = Fin sh,
         geo_x = Fin x, geo_y = Fin y\<rparr>"
    and b: "0 < s \<and> 0 < sw \<and> 0 < sh
      \<and> \<bar>sw - of_nat (naturalWidth img) * s\<bar> \<le> of_nat (naturalWidth img) * s / 2 ^ 53
      \<and> \<bar>sh - of_nat (naturalHeight img) * s\<bar> \<le> of_nat (naturalHeight img) * s / 2 ^ 53
      \<and> \<bar>sw / sh - of_nat (naturalWidth img) / of_nat (naturalHeight img)\<bar>
          \<le> of_nat (naturalWidth img) / of_nat (naturalHeight img) / 2 ^ 51
      \<and> 0 \<le> x \<and> 0 \<le> y \<and> x + sw \<le> 256 \<and> y + sh \<le> 256"
    using fit_geometry_256 [OF assms(6-9)] by blast
  have f: "fit (processImage_try initial_state B file) =
      Some \<lparr>scale = Fin s, scaledWidth = Fin sw, scaledHeight = Fin sh,
            geo_x = Fin x, geo_y = Fin y\<rparr>"
    unfolding d(4) initial_config using assms(5) by (simp add: g)
  have p: "painted (processImage_try initial_state B file) =
      Some \<lparr>canvas_width = 256, canvas_height = 256,
            drawn = [ClearRect (Fin 0) (Fin 0) (Fin 256) (Fin 256),
                     DrawImage img (Fin x) (Fin y) (Fin sw) (Fin sh)]\<rparr>"
    unfolding d(5) initial_config draw_256 using assms(5) by (simp add: g)
  show ?thesis
    using f p b by blast
qed

theorem draw_rect_fits_canvas_witness:
  "isValidImageType (file_type png_file)
   \<and> readAsDataURL (example_browser 1 49 True) (file_type png_file) (file_bytes png_file) =
       Some ''data:image/png;base64,iVBORw0KGgo=''
   \<and> loadImage (example_browser 1 49 True) ''data:image/png;base64,iVBORw0KGgo='' =
       Some (example_image 1 49)
   \<and> decode (example_browser 1 49 True) (example_image 1 49) = None
   \<and> getContext (example_browser 1 49 True)
   \<and> 0 < naturalWidth (example_image 1 49) \<and> naturalWidth (example_image 1 49) < 2 ^ 32
   \<and> 0 < naturalHeight (example_image 1 49) \<and> naturalHeight (example_image 1 49) < 2 ^ 32
   \<and> fit (processImage_try initial_state (example_browser 1 49 True) png_file) =
       Some \<lparr>scale = Fin (5882252574524729 / 1125899906842624),
             scaledWidth = Fin (5882252574524729 / 1125899906842624),
             scaledHeight = Fin (9007199254740991 / 35184372088832),
             geo_x = Fin (4411689430893547 / 35184372088832),
             geo_y = Fin (1 / 70368744177664)\<rparr>
   \<and> \<bar>(5882252574524729 / 1125899906842624) / (9007199254740991 / 35184372088832)
        - of_nat (naturalWidth (example_image 1 49))
          / of_nat (naturalHeight (example_image 1 49))\<bar>
       \<le> (of_nat (naturalWidth (example_image 1 49)) :: rat)
          / of_nat (naturalHeight (example_image 1 49)) / 2 ^ 51
   \<and> (4411689430893547 / 35184372088832 :: rat) + 5882252574524729 / 1125899906842624 \<le> 256
   \<and> (1 / 70368744177664 :: rat) + 9007199254740991 / 35184372088832 \<le> 256"
proof -
  let ?B = "example_browser 1 49 True"
  let ?img = "example_image 1 49"
  have v: "isValidImageType (file_type png_file)"
    and r: "readAsDataURL ?B (file_type png_file) (file_bytes png_file) =
      Some ''data:image/png;base64,iVBORw0KGgo=''"
    and l: "loadImage ?B ''data:image/png;base64,iVBORw0KGgo='' = Some ?img"
    and d: "decode ?B ?img = None"
    and c: "getContext ?B"
    by (simp_all add: example_read)
  have w: "0 < naturalWidth ?img" "naturalWidth ?img < 2 ^ 32"
    and h: "0 < naturalHeight ?img" "naturalHeight ?img < 2 ^ 32"
    by (simp_all add: example_image_def)
  have e: "fit (processImage_try initial_state ?B png_file) =
      Some \<lparr>scale = Fin (5882252574524729 / 1125899906842624),
            scaledWidth = Fin (5882252574524729 / 1125899906842624),
            scaledHeight = Fin (9007199254740991 / 35184372088832),
            geo_x = Fin (4411689430893547 / 35184372088832),
            geo_y = Fin (1 / 70368744177664)\<rparr>"
    by (simp only: example_try attempt.simps example_1_49)
  obtain s sw sh x y where
    g: "fit (processImage_try initial_state ?B png_file) =
        Some \<lparr>scale = Fin s, scaledWidth = Fin sw, scaledHeight = Fin sh,
              geo_x = Fin x, geo_y = Fin y\<rparr>"
    and q: "\<bar>sw / sh - of_nat (naturalWidth ?img) / of_nat (naturalHeight ?img)\<bar>
        \<le> of_nat (naturalWidth ?img) / of_nat (naturalHeight ?img) / 2 ^ 51"
    and k: "x + sw \<le> 256" "y + sh \<le> 256"
    using draw_rect_fits_canvas [OF v r l d c w h] by blast
  have val: "sw = 5882252574524729 / 1125899906842624" "sh = 9007199254740991 / 35184372088832"
    "x = 4411689430893547 / 35184372088832" "y = 1 / 70368744177664"
    using g unfolding e by simp_all
  show ?thesis
    using v r l d c w h e q k unfolding val by (intro conjI)
qed


section \<open>No partial output (C7)\<close>

text \<open>
  C7. A failing attempt, whatever the stage that throws, leaves \<open>outputData\<close> as it was and
  shows the message of what was thrown; a successful attempt replaces \<open>outputData\<close> by
  the whole new descriptor and shows no error. This holds for the function of every
  render \<open>r\<close>; \<^verbatim>\<open>processImage\<close> is the one of the first render.
\<close>

theorem no_partial_output:
  "(case result (processImage_try r B file) of
      Inr out \<Rightarrow> outputData (processImage_callback r B file s) = Some out
        \<and> error (processImage_callback r B file s) = None
    | Inl e \<Rightarrow> outputData (processImage_callback r B file s) = outputData s
        \<and> error (processImage_callback r B file s) = Some (message e))"
  by (simp add: processImage_callback_outputData processImage_callback_error split: sum.split)


section \<open>Same input, same outcome (C8)\<close>







section \<open>Enlargement of small images (C9)\<close>

lemma ratio_gt_one:
  assumes "0 < n" and "n < c" and "c \<le> 2 ^ 52"
  shows "\<exists>r. js_div (num c) (num n) = Fin r \<and> 1 < r"
proof -
  let ?q = "of_nat c / of_nat n :: rat"
  let ?a = "1 + 1 / 2 ^ 52 :: rat"
  have n: "(0::rat) < of_nat n" using assms(1) by simp
  have "(of_nat n :: rat) \<le> of_nat (2 ^ 52)"
    using assms(2,3) by (simp only: of_nat_le_iff)
  then have n52: "(of_nat n :: rat) \<le> 2 ^ 52" by simp
  have "(of_nat (n + 1) :: rat) \<le> of_nat c" using assms(2) by (simp only: of_nat_le_iff)
  then have c: "(of_nat n :: rat) + 1 \<le> of_nat c" by simp
  have "?a * of_nat n \<le> of_nat n + 1" using n52 by (simp add: field_simps)
  then have "?a * of_nat n \<le> of_nat c" using c by simp
  then have aq: "?a \<le> ?q" using n by (simp add: pos_le_divide_eq)
  have "?q \<le> of_nat c" using assms(1) by (simp add: divide_le_eq mult_le_cancel_left1)
  also have "(of_nat c :: rat) \<le> of_nat (2 ^ 52)" using assms(3) by (simp only: of_nat_le_iff)
  also have "\<dots> < (2::rat) powi 1023" by simp
  finally have q: "?q < 2 powi 1023" .
  then have "\<bar>?q\<bar> < 2 powi 1023" using aq by simp
  then obtain r where r: "fl ?q = Fin r" using fl_finite(1) by blast
  have a: "fl ?a = Fin ?a"
    by (rule fl_exact [where m = "2 ^ 52 + 1" and k = "- 52"]) simp_all
  have "(0::rat) < ?a" by simp
  then have "?a \<le> r" using aq q a r by (rule fl_mono)
  then have "1 < r" by simp
  moreover have "js_div (num c) (num n) = Fin r" using assms(1) r by (simp add: num_def)
  ultimately show ?thesis by blast
qed


text \<open>
  The formula of line 107 has no clamp: with a canvas size above both natural
  dimensions, the scale it gives is greater than 1.
\<close>

lemma fit_geometry_scale_gt_one:
  assumes "naturalWidth img < c" and "naturalHeight img < c" and "c \<le> 2 ^ 52"
  shows "js_lt (Fin 1) (scale (fit_geometry c img))"
proof -
  have c: "0 < c" using assms(1) by simp
  have w: "js_div (num c) (num (naturalWidth img)) = PosInf
      \<or> (\<exists>r. js_div (num c) (num (naturalWidth img)) = Fin r \<and> 1 < r)"
    using ratio_gt_one [OF _ assms(1,3)] js_div_by_zero [OF c]
    by (cases "naturalWidth img = 0") simp_all
  have h: "js_div (num c) (num (naturalHeight img)) = PosInf
      \<or> (\<exists>r. js_div (num c) (num (naturalHeight img)) = Fin r \<and> 1 < r)"
    using ratio_gt_one [OF _ assms(2,3)] js_div_by_zero [OF c]
    by (cases "naturalHeight img = 0") simp_all
  show ?thesis
    using w h by (auto simp: fit_geometry_def Let_def)
qed

lemma example_300_300:
  "fit_geometry 256 (example_image 300 300) =
     \<lparr>scale = Fin (7686143364045647 / 9007199254740992), scaledWidth = Fin 256,
      scaledHeight = Fin 256, geo_x = Fin 0, geo_y = Fin 0\<rparr>"
proof -
  let ?s = "7686143364045647 / 9007199254740992 :: rat"
  have a: "js_div (num 256) (num 300) = Fin ?s"
    using fl_eval [where q = "64 / 75" and e = "- 1" and n = 7686143364045647]
    by (simp add: num_def power_int_minus_divide)
  have s: "Math_min (Fin ?s) (Fin ?s) = Fin ?s" by simp
  have w: "js_mul (num 300) (Fin ?s) = Fin 256"
    using fl_eval [where q = "300 * ?s" and e = 8 and n = 4503599627370496]
    by (simp add: num_def)
  have x: "js_div (js_sub (num 256) (Fin 256)) (Fin 2) = Fin 0"
    by (simp add: num_def fl_def)
  show ?thesis
    unfolding fit_geometry_def Let_def
    by (simp only: example_image_def image.simps a s w x)
qed

lemma ratio_2048_300:
  "js_div (num 2048) (num 300) = Fin (7686143364045647 / 1125899906842624)"
  using fl_eval [where q = "512 / 75" and e = 2 and n = 7686143364045647]
  by (simp add: num_def)

text \<open>
  C9. The code does not follow the claim when the canvas size has been changed. A 300 by
  300 image is chosen and the canvas size is set to 2048, above both dimensions: the
  effect processes the file again, by the function of the first render, which reads the
  canvas size 256. The scale it computes is the binary64 value of 256/300, below 1: the
  image is reduced to 256 by 256. The formula of the claim, for the canvas size 2048 of
  the state, gives the binary64 value of 2048/300, above 1.
\<close>

theorem stale_canvas_size_downscales:
  "handleFileSelect (example_browser 300 300 True) png_file initial_state = selected_state 300 300
   \<and> canvasSize (handleCanvasSizeChange (Some 2048) (selected_state 300 300)) = 2048
   \<and> fitToSquare (handleCanvasSizeChange (Some 2048) (selected_state 300 300)) = True
   \<and> naturalWidth (example_image 300 300) < 2048 \<and> naturalHeight (example_image 300 300) < 2048
   \<and> reprocess (example_browser 300 300 True)
         (handleCanvasSizeChange (Some 2048) (selected_state 300 300)) =
       processImage_callback initial_state (example_browser 300 300 True) png_file
         (handleCanvasSizeChange (Some 2048) (selected_state 300 300))
   \<and> fit (processImage_try initial_state (example_browser 300 300 True) png_file) =
       Some \<lparr>scale = Fin (7686143364045647 / 9007199254740992), scaledWidth = Fin 256,
             scaledHeight = Fin 256, geo_x = Fin 0, geo_y = Fin 0\<rparr>
   \<and> js_lt (Fin (7686143364045647 / 9007199254740992)) (Fin 1)
   \<and> \<not> js_lt (Fin 1) (Fin (7686143364045647 / 9007199254740992))
   \<and> Math_min (js_div (num 2048) (num (naturalWidth (example_image 300 300))))
         (js_div (num 2048) (num (naturalHeight (example_image 300 300)))) =
       Fin (7686143364045647 / 1125899906842624)
   \<and> js_lt (Fin 1) (Fin (7686143364045647 / 1125899906842624))
   \<and> outputData (reprocess (example_browser 300 300 True)
        (handleCanvasSizeChange (Some 2048) (selected_state 300 300))) =
       Some (example_output 256 256)"
proof -
  have "fit (processImage_try initial_state (example_browser 300 300 True) png_file) =
      Some \<lparr>scale = Fin (7686143364045647 / 9007199254740992), scaledWidth = Fin 256,
            scaledHeight = Fin 256, geo_x = Fin 0, geo_y = Fin 0\<rparr>"
    by (simp only: example_try attempt.simps example_300_300)
  moreover have "Math_min (js_div (num 2048) (num (naturalWidth (example_image 300 300))))
        (js_div (num 2048) (num (naturalHeight (example_image 300 300)))) =
      Fin (7686143364045647 / 1125899906842624)"
    by (simp only: example_image_def image.simps ratio_2048_300) simp
  ultimately show ?thesis
    by (simp add: example_selected reprocess_after_change processImage_example_output)
       (simp add: handleCanvasSizeChange_def selected_state_simps example_image_def
          processImage_def)
qed


section \<open>Metadata and output after a failure at the canvas (C10)\<close>

text \<open>
  C10. \<^verbatim>\<open>setImageMetadata\<close> runs before the canvas is created. So when the file is read,
  loaded and decoded and the attempt then fails (the 2D context is missing, the canvas
  cannot be encoded), the metadata is that of the new image, \<open>outputData\<close> is the previous
  one and the error is shown. This holds for the function of every render \<open>r\<close>;
  \<^verbatim>\<open>processImage\<close> is the one of the first render.
\<close>

theorem metadata_set_before_canvas_stage:
  assumes "isValidImageType (file_type file)"
    and "readAsDataURL B (file_type file) (file_bytes file) = Some dataUrl"
    and "loadImage B dataUrl = Some img"
    and "decode B img = None"
    and "result (processImage_try r B file) = Inl e"
  shows "imageMetadata (processImage_callback r B file s) =
      Some \<lparr>filename = file_name file, md_type = file_type file, md_size = file_size file,
            md_width = naturalWidth img, md_height = naturalHeight img\<rparr>
    \<and> outputData (processImage_callback r B file s) = outputData s
    \<and> error (processImage_callback r B file s) = Some (message e)"
  using assms(5) processImage_try_decoded(1) [OF assms(1-4)]
  by (simp add: processImage_callback_imageMetadata processImage_callback_outputData
      processImage_callback_error)

theorem metadata_set_before_canvas_stage_witness:
  "isValidImageType (file_type png_file)
   \<and> readAsDataURL (example_browser 100 50 False) (file_type png_file) (file_bytes png_file) =
     Some ''data:image/png;base64,iVBORw0KGgo=''
   \<and> loadImage (example_browser 100 50 False) ''data:image/png;base64,iVBORw0KGgo='' =
     Some (example_image 100 50)
   \<and> decode (example_browser 100 50 False) (example_image 100 50) = None
   \<and> result (processImage_try initial_state (example_browser 100 50 False) png_file) =
     Inl (Error ''Canvas context not available'')
   \<and> imageMetadata (processImage (example_browser 100 50 False) png_file example_state) =
     Some (example_metadata 100 50)
   \<and> imageMetadata example_state = None
   \<and> outputData (processImage (example_browser 100 50 False) png_file example_state) =
     Some (example_output 64 64)
   \<and> error (processImage (example_browser 100 50 False) png_file example_state) =
     Some ''Canvas context not available''"
proof -
  let ?B = "example_browser 100 50 False"
  have v: "isValidImageType (file_type png_file)"
    and r: "readAsDataURL ?B (file_type png_file) (file_bytes png_file) =
      Some ''data:image/png;base64,iVBORw0KGgo=''"
    and l: "loadImage ?B ''data:image/png;base64,iVBORw0KGgo='' = Some (example_image 100 50)"
    and d: "decode ?B (example_image 100 50) = None"
    by (simp_all add: example_read)
  have e: "result (processImage_try initial_state ?B png_file) =
      Inl (Error ''Canvas context not available'')"
    by (simp add: example_try_no_context)
  show ?thesis
    using v r l d e metadata_set_before_canvas_stage [OF v r l d e, of example_state]
    by (simp add: processImage_def example_metadata_def example_image_def png_file_def
        example_state_def initial_state_def)
qed

end
